theory Spec2Isabelle
  imports Complex_Main "HOL-Library.Sublist"
begin

section \<open>Data model of the message drafts store (Draft.ts)\<close>

text \<open>
  Strings are lists of code units; \<open>length\<close> is the source's \<open>.length\<close>.
  An optional field \<open>f?: T\<close> is a field of type \<open>T option\<close>, \<open>None\<close> being
  \<open>undefined\<close> (an absent key and a key holding \<open>undefined\<close> are not told apart:
  no read in the source tells them apart either).
\<close>

datatype error = TypeError | UploadError

record ReplyIntent =
  reply_id :: string
  reply_mention :: bool

text \<open>
  \<open>DraftData\<close>. The element type of \<open>replies\<close> is a parameter: the store's own
  operations build \<open>ReplyIntent\<close> values, while \<open>clean\<close> copies whatever array
  the persisted data holds.
\<close>

record 'r DraftData =
  content :: "string option"
  replies :: "'r list option"
  files :: "string list option"

datatype Status = Sending | Unsent | Failed

record 'r UnsentMessage = "'r DraftData" +
  idempotencyKey :: string
  status :: Status

record TextSelection =
  channelId :: string
  sel_start :: int
  sel_end :: int

datatype EditingId = EditMessage string | EditNewest

record 'r TypeDraft =
  drafts :: "string \<rightharpoonup> 'r DraftData"
  outbox :: "string \<rightharpoonup> 'r UnsentMessage list"
  editingMessageId :: "EditingId option"
  editingMessageContent :: "string option"

record CacheEntry =
  cached_file :: string
  dataUri :: "string option"
  dimensions :: "(nat \<times> nat) option"
  autumnId :: "string option"
  uploadProgress :: real

text \<open>
  The class \<open>Draft\<close>: the reactive \<open>TypeDraft\<close> record it reads with \<open>this.get()\<close>,
  and its two private fields.
\<close>

record Draft = "ReplyIntent TypeDraft" +
  fileCache :: "string \<rightharpoonup> CacheEntry"
  textSelection :: "TextSelection option"

text \<open>\<open>CONFIGURATION\<close> is imported from another package; its two constants are parameters.\<close>

record Configuration =
  MAX_ATTACHMENTS :: nat
  MAX_REPLIES :: nat

record Message =
  msg_id :: string
  msg_channelId :: string
  msg_authorId :: string

section \<open>Draft store operations\<close>

definition empty_draft :: "'r DraftData" where
  "empty_draft = \<lparr>content = None, replies = None, files = None\<rparr>"

text \<open>\<open>default()\<close>, with the constructor's empty file cache and no selection.\<close>

definition default_store :: Draft where
  "default_store =
     \<lparr>drafts = Map.empty, outbox = Map.empty, editingMessageId = None,
      editingMessageContent = None, fileCache = Map.empty, textSelection = None\<rparr>"

definition getDraft :: "Draft \<Rightarrow> string \<Rightarrow> ReplyIntent DraftData" where
  "getDraft s ch = (case drafts s ch of None \<Rightarrow> empty_draft | Some d \<Rightarrow> d)"

text \<open>
  \<open>hasDraft\<close> evaluates \<open>entry && entry.content!.length > 0\<close>: with no entry the
  result is \<open>undefined\<close> (\<open>Inr None\<close>); with an entry whose \<open>content\<close> is
  \<open>undefined\<close> reading \<open>.length\<close> throws.
\<close>

definition hasDraft :: "Draft \<Rightarrow> string \<Rightarrow> error + bool option" where
  "hasDraft s ch =
     (case drafts s ch of
        None \<Rightarrow> Inr None
      | Some entry \<Rightarrow>
          (case content entry of
             None \<Rightarrow> Inl TypeError
           | Some c \<Rightarrow> Inr (Some (length c > 0))))"

text \<open>
  Modelled from the spec: \<open>AbstractStore.set\<close> is inherited from a file that is not part
  of the sources. For \<open>set("drafts", channelId, data)\<close> the spec says the given object is
  "merged key-wise (not deep-merged within arrays -- a provided replies/files array
  fully replaces the previous one)": a key the object defines replaces the stored one,
  any other key keeps its stored value; with no stored draft the object itself is stored.
\<close>

definition merge_draft :: "'r DraftData \<Rightarrow> 'r DraftData \<Rightarrow> 'r DraftData" where
  "merge_draft old new =
     \<lparr>content = (case content new of None \<Rightarrow> content old | Some c \<Rightarrow> Some c),
      replies = (case replies new of None \<Rightarrow> replies old | Some r \<Rightarrow> Some r),
      files = (case files new of None \<Rightarrow> files old | Some f \<Rightarrow> Some f)\<rparr>"

definition set_drafts :: "Draft \<Rightarrow> string \<Rightarrow> ReplyIntent DraftData \<Rightarrow> Draft" where
  "set_drafts s ch data =
     s\<lparr>drafts := (drafts s)(ch \<mapsto>
          (case drafts s ch of None \<Rightarrow> data | Some old \<Rightarrow> merge_draft old data))\<rparr>"

text \<open>
  Modelled from the spec: \<open>set("outbox", channelId, list)\<close>, of the same absent file,
  "replaces the whole per-channel list".
\<close>

definition set_outbox :: "Draft \<Rightarrow> string \<Rightarrow> ReplyIntent UnsentMessage list \<Rightarrow> Draft" where
  "set_outbox s ch msgs = s\<lparr>outbox := (outbox s)(ch \<mapsto> msgs)\<rparr>"

text \<open>
  \<open>clearDraft\<close> deletes the cache entry of every file of the draft, then stores the three
  empty fields. (It ends in \<open>setDraft\<close> with an object, which is exactly \<open>set_drafts\<close>;
  the call is written out here because \<open>setDraft\<close> in turn calls \<open>clearDraft\<close>.)
\<close>

definition clearDraft :: "Draft \<Rightarrow> string \<Rightarrow> Draft" where
  "clearDraft s ch =
     (let fs = (case files (getDraft s ch) of None \<Rightarrow> [] | Some fs \<Rightarrow> fs);
          s1 = s\<lparr>fileCache := foldl (\<lambda>c f. c(f := None)) (fileCache s) fs\<rparr>
      in set_drafts s1 ch \<lparr>content = Some [], replies = Some [], files = Some []\<rparr>)"

datatype setDraftArg =
    ArgUndefined
  | ArgData "ReplyIntent DraftData"
  | ArgUpdater "ReplyIntent DraftData \<Rightarrow> ReplyIntent DraftData"

fun setDraft :: "Draft \<Rightarrow> string \<Rightarrow> setDraftArg \<Rightarrow> Draft" where
  "setDraft s ch ArgUndefined = clearDraft s ch"
| "setDraft s ch (ArgData d) = set_drafts s ch d"
| "setDraft s ch (ArgUpdater f) = set_drafts s ch (f (getDraft s ch))"

text \<open>
  \<open>popDraft\<close>: \<open>files.splice(n)\<close> removes and returns the entries from index \<open>n\<close> on,
  \<open>files.slice(0, n)\<close> is the first \<open>n\<close>; both are skipped (\<open>?.\<close>) when \<open>files\<close> is
  \<open>undefined\<close>.
\<close>

definition popDraft :: "Configuration \<Rightarrow> Draft \<Rightarrow> string \<Rightarrow> Draft \<times> ReplyIntent DraftData" where
  "popDraft cfg s ch =
     (let d = getDraft s ch;
          s' = setDraft s ch (ArgData
                 \<lparr>content = Some [], replies = Some [],
                  files = map_option (drop (MAX_ATTACHMENTS cfg)) (files d)\<rparr>)
      in (s', \<lparr>content = content d, replies = replies d,
               files = map_option (take (MAX_ATTACHMENTS cfg)) (files d)\<rparr>))"

definition getPendingMessages :: "Draft \<Rightarrow> string \<Rightarrow> ReplyIntent UnsentMessage list" where
  "getPendingMessages s ch = (case outbox s ch of None \<Rightarrow> [] | Some ms \<Rightarrow> ms)"

definition getFile :: "Draft \<Rightarrow> string \<Rightarrow> CacheEntry option" where
  "getFile s fileId = fileCache s fileId"

definition deleteFile :: "Draft \<Rightarrow> string \<Rightarrow> Draft" where
  "deleteFile s fileId = s\<lparr>fileCache := (fileCache s)(fileId := None)\<rparr>"

definition removeFile :: "Draft \<Rightarrow> string \<Rightarrow> string \<Rightarrow> Draft" where
  "removeFile s ch fileId =
     setDraft (deleteFile s fileId) ch
       (ArgUpdater (\<lambda>data. \<lparr>content = None, replies = None,
          files = map_option (filter (\<lambda>entry. entry \<noteq> fileId)) (files data)\<rparr>))"

definition cancelSend :: "Draft \<Rightarrow> string \<Rightarrow> string \<Rightarrow> Draft" where
  "cancelSend s ch key =
     set_outbox s ch (filter (\<lambda>entry. idempotencyKey entry \<noteq> key) (getPendingMessages s ch))"

subsection \<open>Text selection\<close>

definition setSelection :: "Draft \<Rightarrow> string \<Rightarrow> int \<Rightarrow> int \<Rightarrow> Draft" where
  "setSelection s ch st en =
     s\<lparr>textSelection := Some \<lparr>channelId = ch, sel_start = st, sel_end = en\<rparr>\<rparr>"

text \<open>
  \<open>String.prototype.slice\<close> on integer arguments: a negative index counts from the end,
  both indices are clamped to the string, and an empty string results when the end is not
  after the start.
\<close>

definition js_index :: "nat \<Rightarrow> int \<Rightarrow> nat" where
  "js_index len i = (if i < 0 then nat (max (int len + i) 0) else min (nat i) len)"

definition js_slice :: "'a list \<Rightarrow> int \<Rightarrow> int \<Rightarrow> 'a list" where
  "js_slice xs st en =
     (let from = js_index (length xs) st; to = js_index (length xs) en
      in take (to - from) (drop from xs))"

definition insertText :: "Draft \<Rightarrow> string \<Rightarrow> Draft" where
  "insertText s str =
     (case textSelection s of
        None \<Rightarrow> s
      | Some sel \<Rightarrow>
          (let content0 = (case content (getDraft s (channelId sel)) of None \<Rightarrow> [] | Some c \<Rightarrow> c);
               startStr = js_slice content0 0 (sel_start sel);
               endStr = js_slice content0 (sel_end sel) (int (length content0));
               s1 = setDraft s (channelId sel)
                      (ArgUpdater (\<lambda>draft. draft\<lparr>content := Some (startStr @ str @ endStr)\<rparr>));
               pasteEndIdx = int (length startStr) + int (length str)
           in s1\<lparr>textSelection := Some (sel\<lparr>sel_start := pasteEndIdx, sel_end := pasteEndIdx\<rparr>)\<rparr>))"

subsection \<open>Replies\<close>

text \<open>
  \<open>addReply\<close>. The remembered preference \<open>getSectionState(MENTION_REPLY)\<close> belongs to
  another store and is the parameter \<open>mentionReply\<close>. The editor focus request
  (\<open>_setNodeReplacement\<close>) touches nothing of this store.
\<close>

definition addReply :: "Configuration \<Rightarrow> bool \<Rightarrow> Draft \<Rightarrow> Message \<Rightarrow> string \<Rightarrow> Draft" where
  "addReply cfg mentionReply s message selfId =
     (let rs = replies (getDraft s (msg_channelId message)) in
      if (case rs of None \<Rightarrow> False
          | Some l \<Rightarrow> find (\<lambda>reply. reply_id reply = msg_id message) l \<noteq> None)
      then s
      else if (case rs of None \<Rightarrow> 0 | Some l \<Rightarrow> length l) \<ge> MAX_REPLIES cfg
      then s
      else
        (let shouldMention = (msg_authorId message \<noteq> selfId \<and> mentionReply)
         in setDraft s (msg_channelId message)
              (ArgUpdater (\<lambda>data. \<lparr>content = None,
                 replies = Some ((case replies data of None \<Rightarrow> [] | Some l \<Rightarrow> l)
                                  @ [\<lparr>reply_id = msg_id message, reply_mention = shouldMention\<rparr>]),
                 files = None\<rparr>))))"

section \<open>Send pipeline\<close>

text \<open>
  What lies outside the store is an environment, fixed for one call of \<open>sendDraft\<close>:
  the key \<open>ulid()\<close> returns, the outcome of the upload request of each file (the
  \<open>loadend\<close> pair: whether the request ended with ready state 4 and status 200, and the
  parsed response), and whether \<open>channel.sendMessage\<close> resolves. The calls issued are
  recorded in order. A call runs to its end without another operation of the store
  running at one of its \<open>await\<close>s.
\<close>

datatype Response = RespNull | RespId string

record DataMessageSend =
  data_content :: "string option"
  data_replies :: "ReplyIntent list option"
  data_attachments :: "string list option"

record Env =
  ulid :: string
  xhr :: "string \<Rightarrow> bool \<times> Response"
  sendMessage :: "DataMessageSend \<Rightarrow> string \<Rightarrow> bool"

datatype Call = Upload string | SendMessage DataMessageSend string

record Outcome =
  result :: "error + unit"
  store :: Draft
  calls :: "Call list"

text \<open>The test \<open>if (autumnId)\<close>: an id that is present and not the empty string.\<close>

definition memoized :: "CacheEntry \<Rightarrow> string option" where
  "memoized e = (case autumnId e of None \<Rightarrow> None | Some a \<Rightarrow> if a = [] then None else Some a)"

text \<open>
  The loop over \<open>files\<close>. It returns the error that ended it (if any), the file cache,
  the attachment ids pushed and the uploads issued. Destructuring \<open>getFile(fileId)\<close>
  throws when the cache has no such entry; reading \<open>response.id\<close> throws when the
  response is \<open>null\<close>. The progress cell is set to 1 when the request ends, whatever its
  outcome (the fractional updates before that leave no trace in the store).
\<close>

fun uploadFiles ::
  "(string \<Rightarrow> bool \<times> Response) \<Rightarrow> string list \<Rightarrow> (string \<rightharpoonup> CacheEntry) \<Rightarrow>
     error option \<times> (string \<rightharpoonup> CacheEntry) \<times> string list \<times> Call list" where
  "uploadFiles up [] cache = (None, cache, [], [])"
| "uploadFiles up (fileId # rest) cache =
     (case cache fileId of
        None \<Rightarrow> (Some TypeError, cache, [], [])
      | Some e \<Rightarrow>
          (case memoized e of
             Some a \<Rightarrow>
               (case uploadFiles up rest cache of
                  (err, cache', ids, cs) \<Rightarrow> (err, cache', a # ids, cs))
           | None \<Rightarrow>
               (let cache1 = cache(fileId \<mapsto> e\<lparr>uploadProgress := 1\<rparr>) in
                if \<not> fst (up fileId) then (Some UploadError, cache1, [], [Upload fileId])
                else
                  (case snd (up fileId) of
                     RespNull \<Rightarrow> (Some TypeError, cache1, [], [Upload fileId])
                   | RespId r \<Rightarrow>
                       (case uploadFiles up rest
                               (cache1(fileId \<mapsto> e\<lparr>uploadProgress := 1, autumnId := Some r\<rparr>)) of
                          (err, cache', ids, cs) \<Rightarrow> (err, cache', r # ids, Upload fileId # cs))))))"

definition new_entry :: "ReplyIntent DraftData \<Rightarrow> string \<Rightarrow> Status \<Rightarrow> ReplyIntent UnsentMessage" where
  "new_entry draft key st =
     \<lparr>content = content draft, replies = replies draft, files = files draft,
      idempotencyKey = key, status = st\<rparr>"

definition sendDraft ::
  "Configuration \<Rightarrow> Env \<Rightarrow> Draft \<Rightarrow> string \<Rightarrow> ReplyIntent DraftData option \<Rightarrow> Outcome" where
  "sendDraft cfg env s ch existingDraft =
     (case (case existingDraft of Some d \<Rightarrow> (s, d) | None \<Rightarrow> popDraft cfg s ch) of
        (s0, draft) \<Rightarrow>
     if (case content draft of None \<Rightarrow> True | Some c \<Rightarrow> c = []) \<and>
        (case files draft of None \<Rightarrow> True | Some fs \<Rightarrow> fs = [])
     then \<lparr>result = Inr (), store = s0, calls = []\<rparr>
     else
       (let key = ulid env;
            s1 = set_outbox s0 ch (getPendingMessages s0 ch @ [new_entry draft key Sending])
        in
        case (case files draft of
                None \<Rightarrow> (None, fileCache s1, [], [])
              | Some fs \<Rightarrow> if fs = [] then (None, fileCache s1, [], [])
                           else uploadFiles (xhr env) fs (fileCache s1)) of
          (err, cache', attachments, ups) \<Rightarrow>
        (let s2 = s1\<lparr>fileCache := cache'\<rparr> in
         case err of
           Some e \<Rightarrow> \<lparr>result = Inl e, store = s2, calls = ups\<rparr>
         | None \<Rightarrow>
             (let data = \<lparr>data_content = content draft, data_replies = replies draft,
                          data_attachments = (if attachments = [] then None else Some attachments)\<rparr>;
                  cs = ups @ [SendMessage data key]
              in
              if sendMessage env data key then
                (let s3 = (case files draft of
                             None \<Rightarrow> s2
                           | Some fs \<Rightarrow> foldl (\<lambda>st f. removeFile st ch f) s2 fs);
                     s4 = set_outbox s3 ch
                            (filter (\<lambda>entry. idempotencyKey entry \<noteq> key) (getPendingMessages s3 ch))
                 in \<lparr>result = Inr (), store = s4, calls = cs\<rparr>)
              else
                (let s3 = set_outbox s2 ch
                            (map (\<lambda>entry. if idempotencyKey entry = key
                                           then entry\<lparr>status := Failed\<rparr> else entry)
                               (getPendingMessages s2 ch))
                 in \<lparr>result = Inr (), store = s3, calls = cs\<rparr>)))))"

text \<open>
  \<open>retrySend\<close>: \<open>this.get().outbox[channel.id].find(...)\<close> throws when the channel has
  no outbox list; when no entry has the key, \<open>find\<close> gives \<open>undefined\<close> and
  \<open>sendDraft\<close> falls back to popping the live draft. The entry found is passed as the
  draft; its key and status are overwritten by the spread in \<open>sendDraft\<close>.
\<close>

definition payload :: "ReplyIntent UnsentMessage \<Rightarrow> ReplyIntent DraftData" where
  "payload m = \<lparr>content = content m, replies = replies m, files = files m\<rparr>"

definition retrySend :: "Configuration \<Rightarrow> Env \<Rightarrow> Draft \<Rightarrow> string \<Rightarrow> string \<Rightarrow> Outcome" where
  "retrySend cfg env s ch key =
     (case outbox s ch of
        None \<Rightarrow> \<lparr>result = Inl TypeError, store = s, calls = []\<rparr>
      | Some ms \<Rightarrow>
          (let draft = find (\<lambda>entry. idempotencyKey entry = key) ms;
               s1 = cancelSend s ch key
           in sendDraft cfg env s1 ch (map_option payload draft)))"

section \<open>Validation of persisted data (\<open>clean\<close>)\<close>

text \<open>
  \<open>clean\<close> receives whatever was persisted, so its input is an untyped value. Numbers
  are integers here (no check of \<open>clean\<close> reads a number's value beyond its type and
  truthiness). An object is its list of own properties; a lookup takes the first pair
  with the key.
\<close>

datatype json =
    JUndefined
  | JNull
  | JBool bool
  | JNum int
  | JStr string
  | JArr "json list"
  | JObj "(string \<times> json) list"

fun typeof :: "json \<Rightarrow> string" where
  "typeof JUndefined = ''undefined''"
| "typeof JNull = ''object''"
| "typeof (JBool b) = ''boolean''"
| "typeof (JNum n) = ''number''"
| "typeof (JStr s) = ''string''"
| "typeof (JArr xs) = ''object''"
| "typeof (JObj kvs) = ''object''"

fun truthy :: "json \<Rightarrow> bool" where
  "truthy JUndefined = False"
| "truthy JNull = False"
| "truthy (JBool b) = b"
| "truthy (JNum n) = (n \<noteq> 0)"
| "truthy (JStr s) = (s \<noteq> [])"
| "truthy (JArr xs) = True"
| "truthy (JObj kvs) = True"

fun string_of_nat :: "nat \<Rightarrow> string" where
  "string_of_nat n =
     (if n < 10 then [char_of (48 + n)]
      else string_of_nat (n div 10) @ [char_of (48 + n mod 10)])"

declare string_of_nat.simps [simp del]

text \<open>
  Reading a property \<open>v.k\<close> or \<open>v[k]\<close>: it throws on \<open>null\<close> and \<open>undefined\<close>; an
  array answers to its indices and to \<open>length\<close>; a primitive has none of the names
  \<open>clean\<close> reads from one (\<open>content\<close>, \<open>replies\<close>).
\<close>

fun get_prop :: "json \<Rightarrow> string \<Rightarrow> error + json" where
  "get_prop JUndefined k = Inl TypeError"
| "get_prop JNull k = Inl TypeError"
| "get_prop (JObj kvs) k = Inr (case map_of kvs k of None \<Rightarrow> JUndefined | Some v \<Rightarrow> v)"
| "get_prop (JArr xs) k =
     Inr (if k = ''length'' then JNum (int (length xs))
          else (case find (\<lambda>i. string_of_nat i = k) [0..<length xs] of
                  None \<Rightarrow> JUndefined | Some i \<Rightarrow> xs ! i))"
| "get_prop v k = Inr JUndefined"

text \<open>Optional chaining \<open>v?.k\<close>.\<close>

definition opt_prop :: "json \<Rightarrow> string \<Rightarrow> json" where
  "opt_prop v k = (case get_prop v k of Inl e \<Rightarrow> JUndefined | Inr x \<Rightarrow> x)"

text \<open>\<open>Object.keys\<close> of a value whose \<open>typeof\<close> is \<open>object\<close>; it throws on \<open>null\<close>.\<close>

fun object_keys :: "json \<Rightarrow> error + string list" where
  "object_keys (JObj kvs) = Inr (remdups (map fst kvs))"
| "object_keys (JArr xs) = Inr (map string_of_nat [0..<length xs])"
| "object_keys JNull = Inl TypeError"
| "object_keys JUndefined = Inl TypeError"
| "object_keys v = Inr []"

text \<open>
  \<open>Array.prototype.find\<close> with a callback that may throw: the first element for which the
  callback is true, \<open>undefined\<close> when there is none.
\<close>

fun js_find :: "(json \<Rightarrow> error + bool) \<Rightarrow> json list \<Rightarrow> error + json" where
  "js_find p [] = Inr JUndefined"
| "js_find p (x # xs) =
     (case p x of
        Inl e \<Rightarrow> Inl e
      | Inr b \<Rightarrow> if b then Inr x else js_find p xs)"

text \<open>
  The callback of \<open>validateReplies\<close>:
  \<open>typeof x !== "object" || typeof x.id !== "string" || typeof x.mention !== "boolean"\<close>.
\<close>

definition bad_reply :: "json \<Rightarrow> error + bool" where
  "bad_reply x =
     (if typeof x \<noteq> ''object'' then Inr True
      else (case get_prop x ''id'' of
              Inl e \<Rightarrow> Inl e
            | Inr i \<Rightarrow>
                if typeof i \<noteq> ''string'' then Inr True
                else (case get_prop x ''mention'' of
                        Inl e \<Rightarrow> Inl e
                      | Inr m \<Rightarrow> Inr (typeof m \<noteq> ''boolean''))))"

text \<open>
  \<open>validateReplies\<close>, as the truth value its callers test:
  \<open>Array.isArray(replies) && replies.length && !replies.find(...)\<close>. The last conjunct
  negates the element \<open>find\<close> returns, not whether it found one.
\<close>

definition validateReplies :: "json \<Rightarrow> error + bool" where
  "validateReplies r =
     (case r of
        JArr xs \<Rightarrow>
          if xs = [] then Inr False
          else (case js_find bad_reply xs of
                  Inl e \<Rightarrow> Inl e
                | Inr found \<Rightarrow> Inr (\<not> truthy found))
      | _ \<Rightarrow> Inr False)"

definition array_items :: "json \<Rightarrow> json list" where
  "array_items v = (case v of JArr xs \<Rightarrow> xs | _ \<Rightarrow> [])"

definition string_value :: "json \<Rightarrow> string" where
  "string_value v = (case v of JStr s \<Rightarrow> s | _ \<Rightarrow> [])"

text \<open>The body of the loop over \<open>Object.keys(messageDrafts)\<close>, for one channel.\<close>

definition clean_draft ::
  "json \<Rightarrow> string \<Rightarrow> (string \<rightharpoonup> json DraftData) \<Rightarrow> error + (string \<rightharpoonup> json DraftData)" where
  "clean_draft messageDrafts ch acc =
     (let entry = opt_prop messageDrafts ch;
          c = opt_prop entry ''content'';
          draft1 = (if typeof c = ''string'' \<and> truthy c
                    then empty_draft\<lparr>content := Some (string_value c)\<rparr> else empty_draft)
      in case validateReplies (opt_prop entry ''replies'') of
           Inl e \<Rightarrow> Inl e
         | Inr ok \<Rightarrow>
             (let draft2 = (if ok then draft1\<lparr>replies := Some (array_items (opt_prop entry ''replies''))\<rparr>
                            else draft1)
              in Inr (if draft2 \<noteq> empty_draft then acc(ch \<mapsto> draft2) else acc)))"

text \<open>
  The body of the loop over the messages of one channel: the four checks of the \<open>if\<close>
  in their order (reading \<open>message.status\<close> throws on \<open>null\<close>, whose \<open>typeof\<close> is
  \<open>object\<close>), then the new entry.
\<close>

definition clean_message ::
  "json \<Rightarrow> json UnsentMessage list \<Rightarrow> error + json UnsentMessage list" where
  "clean_message message messages =
     (if typeof message \<noteq> ''object'' then Inr messages
      else (case get_prop message ''status'' of
              Inl e \<Rightarrow> Inl e
            | Inr st \<Rightarrow>
                if st \<notin> set [JStr ''sending'', JStr ''unsent'', JStr ''failed''] then Inr messages
                else if typeof (opt_prop message ''idempotencyKey'') \<noteq> ''string'' then Inr messages
                else if typeof (opt_prop message ''content'') \<noteq> ''string'' then Inr messages
                else
                  (let msg = \<lparr>content = Some (string_value (opt_prop message ''content'')),
                              replies = None, files = None,
                              idempotencyKey = string_value (opt_prop message ''idempotencyKey''),
                              status = Unsent\<rparr>
                   in case validateReplies (opt_prop message ''replies'') of
                        Inl e \<Rightarrow> Inl e
                      | Inr ok \<Rightarrow>
                          Inr (messages @
                               [if ok then msg\<lparr>replies := Some (array_items (opt_prop message ''replies''))\<rparr>
                                else msg]))))"

fun clean_messages ::
  "json list \<Rightarrow> json UnsentMessage list \<Rightarrow> error + json UnsentMessage list" where
  "clean_messages [] messages = Inr messages"
| "clean_messages (message # rest) messages =
     (case clean_message message messages of
        Inl e \<Rightarrow> Inl e
      | Inr messages' \<Rightarrow> clean_messages rest messages')"

fun clean_drafts ::
  "json \<Rightarrow> string list \<Rightarrow> (string \<rightharpoonup> json DraftData) \<Rightarrow> error + (string \<rightharpoonup> json DraftData)" where
  "clean_drafts messageDrafts [] acc = Inr acc"
| "clean_drafts messageDrafts (ch # rest) acc =
     (case clean_draft messageDrafts ch acc of
        Inl e \<Rightarrow> Inl e
      | Inr acc' \<Rightarrow> clean_drafts messageDrafts rest acc')"

fun clean_outbox ::
  "json \<Rightarrow> string list \<Rightarrow> (string \<rightharpoonup> json UnsentMessage list) \<Rightarrow>
     error + (string \<rightharpoonup> json UnsentMessage list)" where
  "clean_outbox pendingMessages [] acc = Inr acc"
| "clean_outbox pendingMessages (ch # rest) acc =
     (case clean_messages (array_items (opt_prop pendingMessages ch)) [] of
        Inl e \<Rightarrow> Inl e
      | Inr messages \<Rightarrow> clean_outbox pendingMessages rest (acc(ch \<mapsto> messages)))"

text \<open>\<open>clean(input)\<close>, the input given by its two properties \<open>drafts\<close> and \<open>outbox\<close>.\<close>

definition clean :: "json \<Rightarrow> json \<Rightarrow> error + json TypeDraft" where
  "clean input_drafts input_outbox =
     (case (if typeof input_drafts = ''object''
            then (case object_keys input_drafts of
                    Inl e \<Rightarrow> Inl e
                  | Inr ks \<Rightarrow> clean_drafts input_drafts ks Map.empty)
            else Inr Map.empty) of
        Inl e \<Rightarrow> Inl e
      | Inr ds \<Rightarrow>
          (case (if typeof input_outbox = ''object''
                 then (case object_keys input_outbox of
                         Inl e \<Rightarrow> Inl e
                       | Inr ks \<Rightarrow> clean_outbox input_outbox ks Map.empty)
                 else Inr Map.empty) of
             Inl e \<Rightarrow> Inl e
           | Inr ob \<Rightarrow>
               Inr \<lparr>drafts = ds, outbox = ob, editingMessageId = None,
                    editingMessageContent = None\<rparr>))"

section \<open>Names for the parts of a call of \<open>sendDraft\<close>\<close>

text \<open>The files of a draft, \<open>files ?? []\<close>.\<close>

definition file_list :: "'r DraftData \<Rightarrow> string list" where
  "file_list d = (case files d of None \<Rightarrow> [] | Some fs \<Rightarrow> fs)"

text \<open>The negation of the test \<open>!draft.content && !draft.files?.length\<close>.\<close>

definition sendable :: "'r DraftData \<Rightarrow> bool" where
  "sendable d = (\<not> ((case content d of None \<Rightarrow> True | Some c \<Rightarrow> c = []) \<and>
        (case files d of None \<Rightarrow> True | Some fs \<Rightarrow> fs = [])))"

text \<open>The draft a call sends, \<open>existingDraft ?? this.popDraft(channel.id)\<close>, and the store
  after that expression.\<close>

definition sent_draft ::
  "Configuration \<Rightarrow> Draft \<Rightarrow> string \<Rightarrow> ReplyIntent DraftData option \<Rightarrow> ReplyIntent DraftData" where
  "sent_draft cfg s ch existing =
     (case existing of Some d \<Rightarrow> d | None \<Rightarrow> snd (popDraft cfg s ch))"

definition popped_store ::
  "Configuration \<Rightarrow> Draft \<Rightarrow> string \<Rightarrow> ReplyIntent DraftData option \<Rightarrow> Draft" where
  "popped_store cfg s ch existing =
     (case existing of Some d \<Rightarrow> s | None \<Rightarrow> fst (popDraft cfg s ch))"

text \<open>The store once the attempt's entry is in the outbox.\<close>

definition queued_store ::
  "Configuration \<Rightarrow> Env \<Rightarrow> Draft \<Rightarrow> string \<Rightarrow> ReplyIntent DraftData option \<Rightarrow> Draft" where
  "queued_store cfg env s ch existing =
     set_outbox (popped_store cfg s ch existing) ch
       (getPendingMessages (popped_store cfg s ch existing) ch @
          [new_entry (sent_draft cfg s ch existing) (ulid env) Sending])"

text \<open>The object given to \<open>channel.sendMessage\<close>.\<close>

definition message_data :: "ReplyIntent DraftData \<Rightarrow> string list \<Rightarrow> DataMessageSend" where
  "message_data draft attachments =
     \<lparr>data_content = content draft, data_replies = replies draft,
      data_attachments = (if attachments = [] then None else Some attachments)\<rparr>"

text \<open>
  The attachment id the loop pushes for a file: the id memoized on its cache entry, or
  else the id in the response of its upload.
\<close>

definition attachment_id ::
  "(string \<Rightarrow> bool \<times> Response) \<Rightarrow> (string \<rightharpoonup> CacheEntry) \<Rightarrow> string \<Rightarrow> string" where
  "attachment_id up c f =
     (case c f of
        None \<Rightarrow> []
      | Some e \<Rightarrow>
          (case memoized e of
             Some a \<Rightarrow> a
           | None \<Rightarrow> (case snd (up f) of RespId r \<Rightarrow> r | RespNull \<Rightarrow> [])))"

text \<open>A cached file without a memoized id.\<close>

definition unmemoized :: "(string \<rightharpoonup> CacheEntry) \<Rightarrow> string \<Rightarrow> bool" where
  "unmemoized c f = (case c f of None \<Rightarrow> False | Some e \<Rightarrow> memoized e = None)"

section \<open>Concrete stores used as examples\<close>

definition ex_entry :: CacheEntry where
  "ex_entry = \<lparr>cached_file = ''bytes'', dataUri = None, dimensions = None,
                autumnId = None, uploadProgress = 0\<rparr>"

definition ex_store :: Draft where
  "ex_store = default_store
     \<lparr>drafts := [''c'' \<mapsto> \<lparr>content = Some ''hi'', replies = None, files = Some [''f1'']\<rparr>],
      fileCache := [''f1'' \<mapsto> ex_entry]\<rparr>"

definition ex_cfg :: Configuration where
  "ex_cfg = \<lparr>MAX_ATTACHMENTS = 5, MAX_REPLIES = 5\<rparr>"

definition ex_message :: Message where
  "ex_message = \<lparr>msg_id = ''m1'', msg_channelId = ''c'', msg_authorId = ''u2''\<rparr>"

definition hello_store :: Draft where
  "hello_store = setSelection
     (default_store\<lparr>drafts := [''c'' \<mapsto> \<lparr>content = Some ''hello'', replies = None, files = None\<rparr>]\<rparr>)
     ''c'' 3 5"





definition reply_store :: Draft where
  "reply_store = addReply ex_cfg True default_store ex_message ''u1''"

definition env_upload_fails :: Env where
  "env_upload_fails = \<lparr>ulid = ''k1'', xhr = (\<lambda>f. (False, RespNull)), sendMessage = (\<lambda>d k. True)\<rparr>"

definition env_send_fails :: Env where
  "env_send_fails =
     \<lparr>ulid = ''k1'', xhr = (\<lambda>f. (True, RespId (''srv-'' @ f))), sendMessage = (\<lambda>d k. False)\<rparr>"

text \<open>An upload service that answers every upload with the empty string as the id.\<close>

definition env_empty_id :: Env where
  "env_empty_id =
     \<lparr>ulid = ''k1'', xhr = (\<lambda>f. (True, RespId [])), sendMessage = (\<lambda>d k. False)\<rparr>"

definition env_retry :: Env where
  "env_retry = \<lparr>ulid = ''k2'', xhr = (\<lambda>f. (False, RespNull)), sendMessage = (\<lambda>d k. True)\<rparr>"

definition two_files_store :: Draft where
  "two_files_store = default_store
     \<lparr>drafts := [''c'' \<mapsto> \<lparr>content = Some ''hi'', replies = None, files = Some [''f1'', ''f2'']\<rparr>],
      fileCache := [''f1'' \<mapsto> ex_entry, ''f2'' \<mapsto> ex_entry\<lparr>autumnId := Some ''old''\<rparr>]\<rparr>"

definition hi_data :: "string list \<Rightarrow> DataMessageSend" where
  "hi_data ids = \<lparr>data_content = Some ''hi'', data_replies = None, data_attachments = Some ids\<rparr>"

text \<open>
  A persisted outbox whose only entry is well-formed but for its \<open>replies\<close>, the array
  \<open>[0]\<close>.
\<close>

definition bad_outbox :: json where
  "bad_outbox =
     JObj [(''c'', JArr [JObj [(''status'', JStr ''failed''), (''idempotencyKey'', JStr ''k''),
                               (''content'', JStr ''hi''), (''replies'', JArr [JNum 0])]])]"

text \<open>An outbox entry as \<open>clean\<close> builds it: unsent, without files, with content.\<close>

definition entry_ok :: "json UnsentMessage \<Rightarrow> bool" where
  "entry_ok m = (status m = Unsent \<and> files m = None \<and> content m \<noteq> None)"

section \<open>Reading back what \<open>set\<close> stored\<close>

lemma drafts_set_drafts_same:
  "drafts (set_drafts s ch d) ch =
     Some (case drafts s ch of None \<Rightarrow> d | Some old \<Rightarrow> merge_draft old d)"
  by (simp add: set_drafts_def)

lemma getDraft_set_drafts_same:
  "getDraft (set_drafts s ch d) ch =
     (case drafts s ch of None \<Rightarrow> d | Some old \<Rightarrow> merge_draft old d)"
  by (simp add: getDraft_def set_drafts_def)

lemma fileCache_set_drafts [simp]: "fileCache (set_drafts s ch d) = fileCache s"
  by (simp add: set_drafts_def)

section \<open>Popping a draft\<close>

lemma getDraft_popped:
  "getDraft (fst (popDraft cfg s ch)) ch =
     \<lparr>content = Some [], replies = Some [],
      files = map_option (drop (MAX_ATTACHMENTS cfg)) (files (getDraft s ch))\<rparr>"
proof (cases "drafts s ch")
  case None
  then show ?thesis
    by (simp add: popDraft_def Let_def getDraft_def drafts_set_drafts_same empty_draft_def)
next
  case (Some old)
  then show ?thesis
    by (cases "files old")
       (simp_all add: popDraft_def Let_def getDraft_def drafts_set_drafts_same merge_draft_def)
qed

lemma popped_payload:
  "snd (popDraft cfg s ch) =
     \<lparr>content = content (getDraft s ch), replies = replies (getDraft s ch),
      files = map_option (take (MAX_ATTACHMENTS cfg)) (files (getDraft s ch))\<rparr>"
  by (simp add: popDraft_def Let_def)

text \<open>
  Claim C5. \<open>popDraft\<close> returns the content and the replies of the channel's draft and the
  first \<open>MAX_ATTACHMENTS\<close> entries of its files; the draft it leaves stored has empty
  content, empty replies and the files from index \<open>MAX_ATTACHMENTS\<close> on. Where the draft
  has no \<open>files\<close> array, neither has the payload nor the draft left behind.
\<close>

theorem popDraft_splits_files:
  "snd (popDraft cfg s ch) =
     \<lparr>content = content (getDraft s ch), replies = replies (getDraft s ch),
      files = map_option (take (MAX_ATTACHMENTS cfg)) (files (getDraft s ch))\<rparr>
   \<and> getDraft (fst (popDraft cfg s ch)) ch =
     \<lparr>content = Some [], replies = Some [],
      files = map_option (drop (MAX_ATTACHMENTS cfg)) (files (getDraft s ch))\<rparr>"
proof
  show "snd (popDraft cfg s ch) =
     \<lparr>content = content (getDraft s ch), replies = replies (getDraft s ch),
      files = map_option (take (MAX_ATTACHMENTS cfg)) (files (getDraft s ch))\<rparr>"
    by (rule popped_payload)
  show "getDraft (fst (popDraft cfg s ch)) ch =
     \<lparr>content = Some [], replies = Some [],
      files = map_option (drop (MAX_ATTACHMENTS cfg)) (files (getDraft s ch))\<rparr>"
    by (rule getDraft_popped)
qed

section \<open>Clearing a draft\<close>

lemma foldl_delete_in: "f \<in> set fs \<Longrightarrow> foldl (\<lambda>c f. c(f := None)) c fs f = None"
  by (induction fs arbitrary: c rule: rev_induct) auto

text \<open>
  Claim C7, as the code has it. After \<open>clearDraft(C)\<close> the draft of \<open>C\<close> is the object
  with empty content, empty replies and empty files (all three keys present), and no file
  id of the draft as it was before is left in the attachment cache.
\<close>

theorem clearDraft_resets:
  "getDraft (clearDraft s ch) ch = \<lparr>content = Some [], replies = Some [], files = Some []\<rparr>
   \<and> (\<forall>f \<in> set (case files (getDraft s ch) of None \<Rightarrow> [] | Some fs \<Rightarrow> fs).
         getFile (clearDraft s ch) f = None)"
  by (cases "drafts s ch")
     (auto simp: clearDraft_def Let_def getDraft_set_drafts_same merge_draft_def getFile_def
           foldl_delete_in)

theorem clearDraft_resets_witness:
  "getDraft (clearDraft ex_store ''c'') ''c'' =
     \<lparr>content = Some [], replies = Some [], files = Some []\<rparr>
   \<and> getFile (clearDraft ex_store ''c'') ''f1'' = None \<and> getFile ex_store ''f1'' \<noteq> None"
  using clearDraft_resets [of ex_store "''c''"]
  by (simp add: getDraft_def ex_store_def default_store_def getFile_def)

text \<open>
  The draft read back after \<open>clearDraft\<close> is not the empty object \<open>{}\<close>: its three keys
  are present.
\<close>

theorem clearDraft_not_empty_object:
  "getDraft (clearDraft ex_store ''c'') ''c'' \<noteq> empty_draft"
  by (simp add: clearDraft_def ex_store_def default_store_def Let_def getDraft_def set_drafts_def
        merge_draft_def empty_draft_def)

section \<open>Whether a channel has a draft\<close>

lemma hasDraft_content:
  "drafts s ch = Some d \<Longrightarrow> content d = Some c \<Longrightarrow> hasDraft s ch = Inr (Some (length c > 0))"
  by (simp add: hasDraft_def)

text \<open>
  Claim C6. \<open>hasDraft(C)\<close> is to be a boolean, true exactly when the stored content is
  not empty, also for a draft without a content field and for a channel without a draft.
  The code reads \<open>entry.content!.length\<close>: on the replies-only draft that \<open>addReply\<close>
  creates in a fresh store it throws, and with no draft at all it yields \<open>undefined\<close>.
\<close>

theorem hasDraft_replies_only_throws:
  "hasDraft (addReply ex_cfg True default_store ex_message ''u1'') ''c'' = Inl TypeError
   \<and> hasDraft default_store ''c'' = Inr None"
  by (simp add: hasDraft_def addReply_def ex_cfg_def ex_message_def default_store_def
        getDraft_def empty_draft_def set_drafts_def Let_def)

section \<open>Inserting text at the selection\<close>

lemma js_slice_prefix:
  "0 \<le> st \<Longrightarrow> st \<le> int (length xs) \<Longrightarrow> js_slice xs 0 st = take (nat st) xs"
  by (auto simp: js_slice_def js_index_def Let_def min_def nat_le_iff)

lemma js_slice_suffix: "0 \<le> en \<Longrightarrow> js_slice xs en (int (length xs)) = drop (nat en) xs"
  by (auto simp: js_slice_def js_index_def Let_def min_def)

lemma length_js_slice_prefix:
  "0 \<le> st \<Longrightarrow> st \<le> int (length xs) \<Longrightarrow> int (length (js_slice xs 0 st)) = st"
  by (simp add: js_slice_prefix)

text \<open>
  Claim C8, as the code has it. Without a selection \<open>insertText\<close> changes nothing. With a
  selection \<open>{channelId, start, end}\<close> and draft content \<open>c\<close> (the empty string when the
  draft has none), the content becomes \<open>c.slice(0, start) + text + c.slice(end)\<close> and the
  selection becomes the cursor at \<open>c.slice(0, start).length + text.length\<close>; that is
  \<open>start + text.length\<close> whenever \<open>0 \<le> start \<le> c.length\<close>. For such a start and an end
  that is not negative, the new content is \<open>c\<close> up to index \<open>start\<close>, the text, and \<open>c\<close> from
  index \<open>end\<close> on.
\<close>

theorem insertText_splices:
  "(textSelection s = None \<longrightarrow> insertText s str = s) \<and>
   (\<forall>sel c. textSelection s = Some sel \<and>
       c = (case content (getDraft s (channelId sel)) of None \<Rightarrow> [] | Some c \<Rightarrow> c) \<longrightarrow>
       content (getDraft (insertText s str) (channelId sel)) =
         Some (js_slice c 0 (sel_start sel) @ str @ js_slice c (sel_end sel) (int (length c)))
       \<and> textSelection (insertText s str) =
           Some \<lparr>channelId = channelId sel,
                 sel_start = int (length (js_slice c 0 (sel_start sel))) + int (length str),
                 sel_end = int (length (js_slice c 0 (sel_start sel))) + int (length str)\<rparr>
       \<and> (0 \<le> sel_start sel \<and> sel_start sel \<le> int (length c) \<longrightarrow>
            textSelection (insertText s str) =
              Some \<lparr>channelId = channelId sel,
                    sel_start = sel_start sel + int (length str),
                    sel_end = sel_start sel + int (length str)\<rparr>)
       \<and> (0 \<le> sel_start sel \<and> sel_start sel \<le> int (length c) \<and> 0 \<le> sel_end sel \<longrightarrow>
            content (getDraft (insertText s str) (channelId sel)) =
              Some (take (nat (sel_start sel)) c @ str @ drop (nat (sel_end sel)) c)))"
  apply (intro conjI allI impI)
     apply (simp add: insertText_def)
    apply (cases "drafts s (channelId (the (textSelection s)))")
     apply (auto simp: insertText_def Let_def getDraft_def drafts_set_drafts_same merge_draft_def
      empty_draft_def length_js_slice_prefix js_slice_prefix js_slice_suffix split: option.splits)
  done

theorem insertText_splices_witness:
  "textSelection hello_store = Some \<lparr>channelId = ''c'', sel_start = 3, sel_end = 5\<rparr>
   \<and> content (getDraft (insertText hello_store ''XY'') ''c'') = Some ''helXY''
   \<and> textSelection (insertText hello_store ''XY'') =
       Some \<lparr>channelId = ''c'', sel_start = 5, sel_end = 5\<rparr>
   \<and> insertText default_store ''XY'' = default_store"
  using insertText_splices [of hello_store "''XY''"] insertText_splices [of default_store "''XY''"]
  by (simp add: hello_store_def setSelection_def default_store_def getDraft_def js_slice_def
        js_index_def Let_def)

text \<open>
  A selection that lies beyond the content (here: no draft yet, selection 3 to 5): the
  cursor is placed after the inserted text, at 2, not at \<open>start + text.length = 5\<close>.
\<close>

theorem insertText_cursor_clamped:
  "textSelection (insertText (setSelection default_store ''c'' 3 5) ''XY'') =
     Some \<lparr>channelId = ''c'', sel_start = 2, sel_end = 2\<rparr>
   \<and> textSelection (insertText (setSelection default_store ''c'' 3 5) ''XY'') \<noteq>
     Some \<lparr>channelId = ''c'', sel_start = 3 + int (length ''XY''),
           sel_end = 3 + int (length ''XY'')\<rparr>"
  by (simp add: insertText_def setSelection_def default_store_def getDraft_def empty_draft_def
        js_slice_def js_index_def Let_def set_drafts_def)

section \<open>Adding a reply\<close>









section \<open>The upload loop and the send pipeline\<close>

lemma upload_guard:
  "(case files d of None \<Rightarrow> (None, c, [], [])
    | Some fs \<Rightarrow> if fs = [] then (None, c, [], []) else uploadFiles up fs c) =
   uploadFiles up (file_list d) c"
  by (simp add: file_list_def split: option.splits)

lemma sendDraft_unfold:
  "sendDraft cfg env s ch existing =
     (if \<not> sendable (sent_draft cfg s ch existing)
      then \<lparr>result = Inr (), store = popped_store cfg s ch existing, calls = []\<rparr>
      else
        (case uploadFiles (xhr env) (file_list (sent_draft cfg s ch existing))
                (fileCache (queued_store cfg env s ch existing)) of
           (err, cache', attachments, ups) \<Rightarrow>
             (case err of
                Some e \<Rightarrow> \<lparr>result = Inl e,
                           store = (queued_store cfg env s ch existing)\<lparr>fileCache := cache'\<rparr>,
                           calls = ups\<rparr>
              | None \<Rightarrow>
                  if sendMessage env (message_data (sent_draft cfg s ch existing) attachments) (ulid env)
                  then \<lparr>result = Inr (),
                        store = (let s3 = foldl (\<lambda>st f. removeFile st ch f)
                                            ((queued_store cfg env s ch existing)\<lparr>fileCache := cache'\<rparr>)
                                            (file_list (sent_draft cfg s ch existing))
                                 in set_outbox s3 ch
                                      (filter (\<lambda>entry. idempotencyKey entry \<noteq> ulid env)
                                         (getPendingMessages s3 ch))),
                        calls = ups @ [SendMessage (message_data (sent_draft cfg s ch existing) attachments) (ulid env)]\<rparr>
                  else \<lparr>result = Inr (),
                        store = set_outbox ((queued_store cfg env s ch existing)\<lparr>fileCache := cache'\<rparr>) ch
                                  (map (\<lambda>entry. if idempotencyKey entry = ulid env
                                                 then entry\<lparr>status := Failed\<rparr> else entry)
                                     (getPendingMessages ((queued_store cfg env s ch existing)\<lparr>fileCache := cache'\<rparr>) ch)),
                        calls = ups @ [SendMessage (message_data (sent_draft cfg s ch existing) attachments) (ulid env)]\<rparr>)))"
  by (cases existing; cases "popDraft cfg s ch")
     (auto simp: sendDraft_def sendable_def sent_draft_def popped_store_def queued_store_def
        message_data_def Let_def upload_guard file_list_def split: prod.splits option.splits)


lemma uploadFiles_missing:
  "c f = None \<Longrightarrow> uploadFiles up (f # fs) c = (Some TypeError, c, [], [])"
  by simp

lemma uploadFiles_memo:
  "c f = Some e \<Longrightarrow> memoized e = Some a \<Longrightarrow>
   uploadFiles up (f # fs) c =
     (case uploadFiles up fs c of (err, c', ids, cs) \<Rightarrow> (err, c', a # ids, cs))"
  by simp

lemma uploadFiles_fail:
  "c f = Some e \<Longrightarrow> memoized e = None \<Longrightarrow> \<not> fst (up f) \<Longrightarrow>
   uploadFiles up (f # fs) c =
     (Some UploadError, c(f \<mapsto> e\<lparr>uploadProgress := 1\<rparr>), [], [Upload f])"
  by (simp add: Let_def)

lemma uploadFiles_null:
  "c f = Some e \<Longrightarrow> memoized e = None \<Longrightarrow> fst (up f) \<Longrightarrow> snd (up f) = RespNull \<Longrightarrow>
   uploadFiles up (f # fs) c =
     (Some TypeError, c(f \<mapsto> e\<lparr>uploadProgress := 1\<rparr>), [], [Upload f])"
  by (simp add: Let_def)

lemma uploadFiles_ok:
  "c f = Some e \<Longrightarrow> memoized e = None \<Longrightarrow> fst (up f) \<Longrightarrow> snd (up f) = RespId r \<Longrightarrow>
   uploadFiles up (f # fs) c =
     (case uploadFiles up fs (c(f \<mapsto> e\<lparr>uploadProgress := 1, autumnId := Some r\<rparr>)) of
        (err, c', ids, cs) \<Rightarrow> (err, c', r # ids, Upload f # cs))"
  by (simp add: Let_def)

lemmas uploadFiles_steps =
  uploadFiles_missing uploadFiles_memo uploadFiles_fail uploadFiles_null uploadFiles_ok

lemma upload_step_cases [case_names Missing Memo Fail Null Ok]:
  fixes c :: "string \<rightharpoonup> CacheEntry" and up :: "string \<Rightarrow> bool \<times> Response"
  obtains (Missing) "c f = None"
  | (Memo) e a where "c f = Some e" "memoized e = Some a"
  | (Fail) e where "c f = Some e" "memoized e = None" "\<not> fst (up f)"
  | (Null) e where "c f = Some e" "memoized e = None" "fst (up f)" "snd (up f) = RespNull"
  | (Ok) e r where "c f = Some e" "memoized e = None" "fst (up f)" "snd (up f) = RespId r"
proof (cases "c f")
  case None
  then show ?thesis by (rule Missing)
next
  case (Some e)
  note e = this
  show ?thesis
  proof (cases "memoized e")
    case (Some a)
    with e show ?thesis by (rule Memo)
  next
    case None
    show ?thesis
    proof (cases "fst (up f)")
      case False
      with e None show ?thesis by (rule Fail)
    next
      case True
      show ?thesis
      proof (cases "snd (up f)")
        case RespNull
        with e None True show ?thesis by (rule Null)
      next
        case (RespId r)
        with e None True show ?thesis by (rule Ok)
      qed
    qed
  qed
qed

declare uploadFiles.simps(2) [simp del]

lemma attachment_id_memoize:
  "c g = Some e \<Longrightarrow> memoized e = None \<Longrightarrow> snd (up g) = RespId r \<Longrightarrow>
   attachment_id up (c(g \<mapsto> e\<lparr>uploadProgress := 1, autumnId := Some r\<rparr>)) f = attachment_id up c f"
  by (auto simp: attachment_id_def memoized_def split: option.splits if_splits)

lemma unmemoized_other:
  "f \<noteq> g \<Longrightarrow> unmemoized (c(g \<mapsto> e)) f = unmemoized c f"
  by (simp add: unmemoized_def)

lemma uploadFiles_only_uploads:
  "uploadFiles up fs c = (err, c', ids, cs) \<Longrightarrow> SendMessage d k \<notin> set cs"
proof (induction fs arbitrary: c err c' ids cs)
  case Nil
  then show ?case by simp
next
  case (Cons g fs)
  then show ?case
    by (cases rule: upload_step_cases [where c = c and f = g and up = up])
       (auto simp: uploadFiles_steps split: prod.splits)
qed

lemma uploadFiles_dom:
  "uploadFiles up fs c = (err, c', ids, cs) \<Longrightarrow> dom c' = dom c"
proof (induction fs arbitrary: c err c' ids cs)
  case Nil
  then show ?case by simp
next
  case (Cons g fs)
  show ?case
  proof (cases rule: upload_step_cases [where c = c and f = g and up = up])
    case (Ok e r)
    with Cons.prems obtain ids2 cs2 where
      rec: "uploadFiles up fs (c(g \<mapsto> e\<lparr>uploadProgress := 1, autumnId := Some r\<rparr>)) = (err, c', ids2, cs2)"
      by (auto simp: uploadFiles_ok split: prod.splits)
    have "dom c' = dom (c(g \<mapsto> e\<lparr>uploadProgress := 1, autumnId := Some r\<rparr>))"
      by (rule Cons.IH [OF rec])
    with Ok show ?thesis by auto
  qed (use Cons in \<open>auto simp: uploadFiles_steps split: prod.splits if_splits\<close>)
qed

lemma uploadFiles_failed:
  "uploadFiles up fs c = (err, c', ids, cs) \<Longrightarrow> Upload f \<in> set cs \<Longrightarrow> \<not> fst (up f) \<Longrightarrow>
   err = Some UploadError \<and> (\<exists>pre. cs = pre @ [Upload f])"
proof (induction fs arbitrary: c err c' ids cs)
  case Nil
  then show ?case by simp
next
  case (Cons g fs)
  show ?case
  proof (cases rule: upload_step_cases [where c = c and f = g and up = up])
    case (Ok e r)
    obtain err2 c2 ids2 cs2 where
      rec: "uploadFiles up fs (c(g \<mapsto> e\<lparr>uploadProgress := 1, autumnId := Some r\<rparr>)) = (err2, c2, ids2, cs2)"
      by (metis prod_cases4)
    with Ok Cons.prems have eqs: "err = err2" "cs = Upload g # cs2"
      by (auto simp: uploadFiles_ok)
    with Cons.prems Ok have "Upload f \<in> set cs2" by auto
    from Cons.IH [OF rec this Cons.prems(3)] eqs show ?thesis by auto
  qed (use Cons in \<open>auto simp: uploadFiles_steps split: prod.splits\<close>)
qed

lemma uploadFiles_complete_cached:
  "uploadFiles up fs c = (None, c', ids, cs) \<Longrightarrow> set fs \<subseteq> dom c"
proof (induction fs arbitrary: c c' ids cs)
  case Nil
  then show ?case by simp
next
  case (Cons g fs)
  show ?case
  proof (cases rule: upload_step_cases [where c = c and f = g and up = up])
    case (Memo e a)
    with Cons.prems obtain ids2 where rec: "uploadFiles up fs c = (None, c', ids2, cs)"
      by (auto simp: uploadFiles_memo split: prod.splits)
    from Cons.IH [OF rec] Memo show ?thesis by auto
  next
    case (Ok e r)
    from Cons.prems Ok obtain ids2 cs2 where
      rec: "uploadFiles up fs (c(g \<mapsto> e\<lparr>uploadProgress := 1, autumnId := Some r\<rparr>)) = (None, c', ids2, cs2)"
      by (auto simp: uploadFiles_ok split: prod.splits)
    have "set fs \<subseteq> dom (c(g \<mapsto> e\<lparr>uploadProgress := 1, autumnId := Some r\<rparr>))"
      by (rule Cons.IH [OF rec])
    with Ok show ?thesis by auto
  qed (use Cons.prems in \<open>auto simp: uploadFiles_steps\<close>)
qed

lemma uploadFiles_uploaded_unmemoized:
  "uploadFiles up fs c = (err, c', ids, cs) \<Longrightarrow> Upload f \<in> set cs \<Longrightarrow> unmemoized c f"
proof (induction fs arbitrary: c err c' ids cs)
  case Nil
  then show ?case by simp
next
  case (Cons g fs)
  show ?case
  proof (cases rule: upload_step_cases [where c = c and f = g and up = up])
    case (Memo e a)
    with Cons.prems obtain ids2 where rec: "uploadFiles up fs c = (err, c', ids2, cs)"
      by (auto simp: uploadFiles_memo split: prod.splits)
    from Cons.IH [OF rec Cons.prems(2)] show ?thesis .
  next
    case (Ok e r)
    let ?c2 = "c(g \<mapsto> e\<lparr>uploadProgress := 1, autumnId := Some r\<rparr>)"
    from Cons.prems Ok obtain ids2 cs2 where
      rec: "uploadFiles up fs ?c2 = (err, c', ids2, cs2)" and eqs: "cs = Upload g # cs2"
      by (auto simp: uploadFiles_ok split: prod.splits)
    show ?thesis
    proof (cases "f = g")
      case True
      with Ok show ?thesis by (simp add: unmemoized_def)
    next
      case False
      with Cons.prems eqs have "Upload f \<in> set cs2" by simp
      have "unmemoized ?c2 f" by (rule Cons.IH [OF rec \<open>Upload f \<in> set cs2\<close>])
      with False show ?thesis by (simp add: unmemoized_other)
    qed
  qed (use Cons.prems in \<open>auto simp: uploadFiles_steps unmemoized_def\<close>)
qed

lemma uploadFiles_ids:
  "uploadFiles up fs c = (None, c', ids, cs) \<Longrightarrow> ids = map (attachment_id up c) fs"
proof (induction fs arbitrary: c c' ids cs)
  case Nil
  then show ?case by simp
next
  case (Cons g fs)
  show ?case
  proof (cases rule: upload_step_cases [where c = c and f = g and up = up])
    case (Memo e a)
    with Cons show ?thesis
      by (auto simp: uploadFiles_memo attachment_id_def split: prod.splits)
  next
    case (Ok e r)
    let ?c2 = "c(g \<mapsto> e\<lparr>uploadProgress := 1, autumnId := Some r\<rparr>)"
    from Cons.prems Ok obtain ids2 cs2 where
      rec: "uploadFiles up fs ?c2 = (None, c', ids2, cs2)" and eqs: "ids = r # ids2"
      by (auto simp: uploadFiles_ok split: prod.splits)
    have same: "attachment_id up ?c2 = attachment_id up c"
      using Ok by (intro ext attachment_id_memoize)
    have "ids2 = map (attachment_id up ?c2) fs"
      by (rule Cons.IH [OF rec])
    moreover have "attachment_id up c g = r"
      using Ok by (simp add: attachment_id_def)
    ultimately show ?thesis
      using eqs same by simp
  qed (use Cons.prems in \<open>auto simp: uploadFiles_steps split: prod.splits\<close>)
qed

lemma uploadFiles_all_uploaded:
  "uploadFiles up fs c = (None, c', ids, cs) \<Longrightarrow> f \<in> set fs \<Longrightarrow> unmemoized c f \<Longrightarrow>
   Upload f \<in> set cs"
proof (induction fs arbitrary: c c' ids cs)
  case Nil
  then show ?case by simp
next
  case (Cons g fs)
  show ?case
  proof (cases rule: upload_step_cases [where c = c and f = g and up = up])
    case (Memo e a)
    with Cons.prems obtain ids2 where rec: "uploadFiles up fs c = (None, c', ids2, cs)"
      by (auto simp: uploadFiles_memo split: prod.splits)
    from Memo Cons.prems have "f \<in> set fs" by (auto simp: unmemoized_def)
    from Cons.IH [OF rec this Cons.prems(3)] show ?thesis .
  next
    case (Ok e r)
    let ?c2 = "c(g \<mapsto> e\<lparr>uploadProgress := 1, autumnId := Some r\<rparr>)"
    from Cons.prems Ok obtain ids2 cs2 where
      rec: "uploadFiles up fs ?c2 = (None, c', ids2, cs2)" and eqs: "cs = Upload g # cs2"
      by (auto simp: uploadFiles_ok split: prod.splits)
    show ?thesis
    proof (cases "f = g")
      case True
      with eqs show ?thesis by simp
    next
      case False
      with Cons.prems have "f \<in> set fs" "unmemoized ?c2 f"
        by (simp_all add: unmemoized_other)
      from Cons.IH [OF rec this] eqs show ?thesis by simp
    qed
  qed (use Cons.prems in \<open>auto simp: uploadFiles_steps split: prod.splits\<close>)
qed

lemma uploadFiles_memoized_unchanged:
  "uploadFiles up fs c = (err, c', ids, cs) \<Longrightarrow> c f = Some e \<Longrightarrow> memoized e = Some a \<Longrightarrow>
   c' f = Some e"
proof (induction fs arbitrary: c err c' ids cs)
  case Nil
  then show ?case by simp
next
  case (Cons g fs)
  show ?case
  proof (cases rule: upload_step_cases [where c = c and f = g and up = up])
    case (Memo e2 a2)
    with Cons.prems obtain ids2 where rec: "uploadFiles up fs c = (err, c', ids2, cs)"
      by (auto simp: uploadFiles_memo split: prod.splits)
    from Cons.IH [OF rec Cons.prems(2,3)] show ?thesis .
  next
    case (Ok e2 r)
    let ?c2 = "c(g \<mapsto> e2\<lparr>uploadProgress := 1, autumnId := Some r\<rparr>)"
    from Cons.prems Ok obtain ids2 cs2 where
      rec: "uploadFiles up fs ?c2 = (err, c', ids2, cs2)"
      by (auto simp: uploadFiles_ok split: prod.splits)
    from Ok Cons.prems have "f \<noteq> g" by auto
    with Cons.prems have "?c2 f = Some e" by simp
    from Cons.IH [OF rec this Cons.prems(3)] show ?thesis .
  qed (use Cons.prems in \<open>auto simp: uploadFiles_steps split: prod.splits\<close>)
qed

lemma uploadFiles_memoized_file:
  "uploadFiles up fs c = (None, c', ids, cs) \<Longrightarrow> f \<in> set fs \<Longrightarrow> attachment_id up c f \<noteq> [] \<Longrightarrow>
   \<exists>e'. c' f = Some e' \<and> memoized e' = Some (attachment_id up c f)"
proof (induction fs arbitrary: c c' ids cs)
  case Nil
  then show ?case by simp
next
  case (Cons g fs)
  show ?case
  proof (cases rule: upload_step_cases [where c = c and f = g and up = up])
    case (Memo e a)
    with Cons.prems obtain ids2 where rec: "uploadFiles up fs c = (None, c', ids2, cs)"
      by (auto simp: uploadFiles_memo split: prod.splits)
    show ?thesis
    proof (cases "f = g")
      case True
      from uploadFiles_memoized_unchanged [OF rec Memo] Memo True
      show ?thesis by (simp add: attachment_id_def)
    next
      case False
      with Cons.prems have "f \<in> set fs" by simp
      from Cons.IH [OF rec this Cons.prems(3)] show ?thesis .
    qed
  next
    case (Ok e r)
    let ?e2 = "e\<lparr>uploadProgress := 1, autumnId := Some r\<rparr>"
    let ?c2 = "c(g \<mapsto> ?e2)"
    from Cons.prems Ok obtain ids2 cs2 where
      rec: "uploadFiles up fs ?c2 = (None, c', ids2, cs2)"
      by (auto simp: uploadFiles_ok split: prod.splits)
    have same: "attachment_id up ?c2 f = attachment_id up c f"
      using Ok by (intro attachment_id_memoize)
    show ?thesis
    proof (cases "f = g")
      case True
      with Ok have "attachment_id up c f = r" by (simp add: attachment_id_def)
      with Cons.prems(3) have "r \<noteq> []" by simp
      then have memo: "memoized ?e2 = Some r" by (simp add: memoized_def)
      have "?c2 g = Some ?e2" by simp
      from uploadFiles_memoized_unchanged [OF rec this memo] Ok True memo
      show ?thesis by (simp add: attachment_id_def)
    next
      case False
      with Cons.prems have "f \<in> set fs" by simp
      moreover from same Cons.prems(3) have "attachment_id up ?c2 f \<noteq> []" by simp
      ultimately have "\<exists>e'. c' f = Some e' \<and> memoized e' = Some (attachment_id up ?c2 f)"
        by (rule Cons.IH [OF rec])
      with same show ?thesis by simp
    qed
  qed (use Cons.prems in \<open>auto simp: uploadFiles_steps split: prod.splits\<close>)
qed

lemma unmemoized_after_upload:
  "c g = Some e \<Longrightarrow> memoized e = None \<Longrightarrow>
   unmemoized (c(g \<mapsto> e\<lparr>uploadProgress := 1, autumnId := Some r\<rparr>)) f \<Longrightarrow> unmemoized c f"
  by (cases "f = g") (simp_all add: unmemoized_def)

lemma uploadFiles_no_error:
  "set fs \<subseteq> dom c \<Longrightarrow>
   (\<And>f. f \<in> set fs \<Longrightarrow> unmemoized c f \<Longrightarrow> fst (up f) \<and> snd (up f) \<noteq> RespNull) \<Longrightarrow>
   \<exists>c' ids cs. uploadFiles up fs c = (None, c', ids, cs)"
proof (induction fs arbitrary: c)
  case Nil
  show ?case by simp
next
  case (Cons g fs)
  show ?case
  proof (cases rule: upload_step_cases [where c = c and f = g and up = up])
    case Missing
    with Cons.prems(1) show ?thesis by auto
  next
    case (Memo e a)
    from Cons.prems have "\<exists>c' ids cs. uploadFiles up fs c = (None, c', ids, cs)"
      by (intro Cons.IH) auto
    with Memo show ?thesis by (auto simp: uploadFiles_memo)
  next
    case (Fail e)
    then have "unmemoized c g" by (simp add: unmemoized_def)
    with Cons.prems(2) [of g] Fail show ?thesis by simp
  next
    case (Null e)
    then have "unmemoized c g" by (simp add: unmemoized_def)
    with Cons.prems(2) [of g] Null show ?thesis by simp
  next
    case (Ok e r)
    let ?c2 = "c(g \<mapsto> e\<lparr>uploadProgress := 1, autumnId := Some r\<rparr>)"
    have "set fs \<subseteq> dom ?c2" using Cons.prems(1) by auto
    moreover have "fst (up f) \<and> snd (up f) \<noteq> RespNull" if "f \<in> set fs" "unmemoized ?c2 f" for f
    proof -
      from Ok(1,2) that(2) have "unmemoized c f" by (rule unmemoized_after_upload)
      with that(1) Cons.prems(2) [of f] show ?thesis by simp
    qed
    ultimately have "\<exists>c' ids cs. uploadFiles up fs ?c2 = (None, c', ids, cs)"
      by (rule Cons.IH)
    with Ok show ?thesis by (auto simp: uploadFiles_ok)
  qed
qed

lemma uploadFiles_reaches:
  "set pre \<subseteq> dom c \<Longrightarrow>
   (\<And>g. g \<in> set pre \<Longrightarrow> unmemoized c g \<Longrightarrow> fst (up g) \<and> snd (up g) \<noteq> RespNull) \<Longrightarrow>
   f \<notin> set pre \<Longrightarrow> unmemoized c f \<Longrightarrow>
   uploadFiles up (pre @ f # post) c = (err, c', ids, cs) \<Longrightarrow> Upload f \<in> set cs"
proof (induction pre arbitrary: c err c' ids cs)
  case Nil
  from Nil.prems(4) obtain e where e: "c f = Some e" "memoized e = None"
    by (auto simp: unmemoized_def split: option.splits)
  show ?case
  proof (cases rule: upload_step_cases [where c = c and f = f and up = up])
    case (Ok e2 r)
    with Nil.prems(5) show ?thesis by (auto simp: uploadFiles_ok split: prod.splits)
  qed (use e Nil.prems(5) in \<open>auto simp: uploadFiles_steps\<close>)
next
  case (Cons g pre)
  from Cons.prems(3) have fg: "f \<noteq> g" "f \<notin> set pre" by auto
  show ?case
  proof (cases rule: upload_step_cases [where c = c and f = g and up = up])
    case Missing
    with Cons.prems(1) show ?thesis by auto
  next
    case (Memo e a)
    with Cons.prems(5) obtain ids2 where
      rec: "uploadFiles up (pre @ f # post) c = (err, c', ids2, cs)"
      by (auto simp: uploadFiles_memo split: prod.splits)
    from Cons.prems(1,2) fg(2) Cons.prems(4) rec show ?thesis
      by (intro Cons.IH [of c err c' ids2 cs]) auto
  next
    case (Fail e)
    then have "unmemoized c g" by (simp add: unmemoized_def)
    with Cons.prems(2) [of g] Fail show ?thesis by simp
  next
    case (Null e)
    then have "unmemoized c g" by (simp add: unmemoized_def)
    with Cons.prems(2) [of g] Null show ?thesis by simp
  next
    case (Ok e r)
    let ?c2 = "c(g \<mapsto> e\<lparr>uploadProgress := 1, autumnId := Some r\<rparr>)"
    from Cons.prems(5) Ok obtain ids2 cs2 where
      rec: "uploadFiles up (pre @ f # post) ?c2 = (err, c', ids2, cs2)" and eqs: "cs = Upload g # cs2"
      by (auto simp: uploadFiles_ok split: prod.splits)
    have 1: "set pre \<subseteq> dom ?c2" using Cons.prems(1) by auto
    have 2: "fst (up h) \<and> snd (up h) \<noteq> RespNull" if "h \<in> set pre" "unmemoized ?c2 h" for h
    proof -
      from Ok(1,2) that(2) have "unmemoized c h" by (rule unmemoized_after_upload)
      with that(1) Cons.prems(2) [of h] show ?thesis by simp
    qed
    have 3: "unmemoized ?c2 f" using fg(1) Cons.prems(4) by (simp add: unmemoized_other)
    have "Upload f \<in> set cs2"
      using 1 2 fg(2) 3 rec by (rule Cons.IH)
    with eqs show ?thesis by simp
  qed
qed

lemma uploadFiles_all_memoized:
  "(\<And>f. f \<in> set fs \<Longrightarrow> \<exists>e. c f = Some e \<and> memoized e = Some (g f)) \<Longrightarrow>
   uploadFiles up fs c = (None, c, map g fs, [])"
proof (induction fs)
  case Nil
  show ?case by simp
next
  case (Cons f fs)
  from Cons.prems [of f] obtain e where e: "c f = Some e" "memoized e = Some (g f)" by auto
  from Cons.IH Cons.prems have "uploadFiles up fs c = (None, c, map g fs, [])" by simp
  with e show ?case by (simp add: uploadFiles_memo)
qed


lemma popped_store_outbox [simp]: "outbox (popped_store cfg s ch existing) = outbox s"
  by (simp add: popped_store_def popDraft_def Let_def set_drafts_def split: option.splits)

lemma popped_store_fileCache [simp]: "fileCache (popped_store cfg s ch existing) = fileCache s"
  by (simp add: popped_store_def popDraft_def Let_def split: option.splits)

lemma getPendingMessages_popped [simp]:
  "getPendingMessages (popped_store cfg s ch existing) ch' = getPendingMessages s ch'"
  by (simp add: getPendingMessages_def)

lemma queued_store_fileCache [simp]: "fileCache (queued_store cfg env s ch existing) = fileCache s"
  by (simp add: queued_store_def set_outbox_def)

lemma queued_store_pending:
  "getPendingMessages (queued_store cfg env s ch existing) ch =
     getPendingMessages s ch @ [new_entry (sent_draft cfg s ch existing) (ulid env) Sending]"
  by (simp add: queued_store_def set_outbox_def getPendingMessages_def)

lemma getPendingMessages_fileCache_update [simp]:
  "getPendingMessages (s\<lparr>fileCache := c\<rparr>) ch = getPendingMessages s ch"
  by (simp add: getPendingMessages_def)

lemma getPendingMessages_set_outbox [simp]:
  "getPendingMessages (set_outbox s ch ms) ch = ms"
  by (simp add: getPendingMessages_def set_outbox_def)

lemma fileCache_set_outbox [simp]: "fileCache (set_outbox s ch ms) = fileCache s"
  by (simp add: set_outbox_def)

text \<open>The ways a call of \<open>sendDraft\<close> can end.\<close>

lemma sendDraft_nothing:
  "\<not> sendable (sent_draft cfg s ch existing) \<Longrightarrow>
   sendDraft cfg env s ch existing =
     \<lparr>result = Inr (), store = popped_store cfg s ch existing, calls = []\<rparr>"
  by (simp add: sendDraft_unfold)

lemma sendDraft_aborted:
  "sendable (sent_draft cfg s ch existing) \<Longrightarrow>
   uploadFiles (xhr env) (file_list (sent_draft cfg s ch existing)) (fileCache s) =
     (Some e, c', ids, ups) \<Longrightarrow>
   sendDraft cfg env s ch existing =
     \<lparr>result = Inl e, store = (queued_store cfg env s ch existing)\<lparr>fileCache := c'\<rparr>,
      calls = ups\<rparr>"
  by (simp add: sendDraft_unfold)

lemma sendDraft_send_failed:
  "sendable (sent_draft cfg s ch existing) \<Longrightarrow>
   uploadFiles (xhr env) (file_list (sent_draft cfg s ch existing)) (fileCache s) =
     (None, c', ids, ups) \<Longrightarrow>
   \<not> sendMessage env (message_data (sent_draft cfg s ch existing) ids) (ulid env) \<Longrightarrow>
   sendDraft cfg env s ch existing =
     \<lparr>result = Inr (),
      store = set_outbox ((queued_store cfg env s ch existing)\<lparr>fileCache := c'\<rparr>) ch
                (map (\<lambda>entry. if idempotencyKey entry = ulid env
                               then entry\<lparr>status := Failed\<rparr> else entry)
                   (getPendingMessages s ch @
                      [new_entry (sent_draft cfg s ch existing) (ulid env) Sending])),
      calls = ups @ [SendMessage (message_data (sent_draft cfg s ch existing) ids) (ulid env)]\<rparr>"
  by (simp add: sendDraft_unfold queued_store_pending)

lemma sendDraft_sent_calls:
  "sendable (sent_draft cfg s ch existing) \<Longrightarrow>
   uploadFiles (xhr env) (file_list (sent_draft cfg s ch existing)) (fileCache s) =
     (None, c', ids, ups) \<Longrightarrow>
   calls (sendDraft cfg env s ch existing) =
     ups @ [SendMessage (message_data (sent_draft cfg s ch existing) ids) (ulid env)]"
  by (simp add: sendDraft_unfold)

text \<open>What a call looked like when a given call to the transport is among those issued.\<close>

lemma sendDraft_upload_inv:
  assumes "Upload f \<in> set (calls (sendDraft cfg env s ch existing))"
  obtains err c' ids ups where
    "sendable (sent_draft cfg s ch existing)"
    "uploadFiles (xhr env) (file_list (sent_draft cfg s ch existing)) (fileCache s) =
       (err, c', ids, ups)"
    "Upload f \<in> set ups"
proof -
  obtain err c' ids ups where
    up: "uploadFiles (xhr env) (file_list (sent_draft cfg s ch existing)) (fileCache s) =
       (err, c', ids, ups)"
    by (metis prod_cases4)
  from assms have sendable: "sendable (sent_draft cfg s ch existing)"
    by (auto simp: sendDraft_unfold split: if_splits)
  with assms up have "Upload f \<in> set ups"
    by (cases err) (auto simp: sendDraft_unfold split: if_splits)
  with sendable up show ?thesis by (rule that)
qed

lemma sendDraft_send_inv:
  assumes "SendMessage d k \<in> set (calls (sendDraft cfg env s ch existing))"
  obtains c' ids ups where
    "sendable (sent_draft cfg s ch existing)"
    "uploadFiles (xhr env) (file_list (sent_draft cfg s ch existing)) (fileCache s) =
       (None, c', ids, ups)"
    "d = message_data (sent_draft cfg s ch existing) ids" "k = ulid env"
proof -
  obtain err c' ids ups where
    up: "uploadFiles (xhr env) (file_list (sent_draft cfg s ch existing)) (fileCache s) =
       (err, c', ids, ups)"
    by (metis prod_cases4)
  from assms have sendable: "sendable (sent_draft cfg s ch existing)"
    by (auto simp: sendDraft_unfold split: if_splits)
  from uploadFiles_only_uploads [OF up] have no: "SendMessage d k \<notin> set ups" .
  with assms up sendable have err: "err = None"
    by (cases err) (auto simp: sendDraft_unfold)
  with assms up sendable no have "d = message_data (sent_draft cfg s ch existing) ids" "k = ulid env"
    by (auto simp: sendDraft_unfold split: if_splits)
  with sendable up err show ?thesis by (auto intro: that)
qed


text \<open>
  Claim C1, as the code has it. When \<open>sendDraft\<close> is called without a draft and the popped
  payload has neither content nor files, the call returns normally, issues no call to the
  transport and leaves the outbox and the attachment cache as they were. The stored draft
  of the channel has been popped all the same: its content is now the empty string, its
  replies the empty list (whatever replies it held are gone), and its files are those
  that \<open>popDraft\<close> leaves behind.
\<close>

theorem sendDraft_nothing_to_send:
  assumes "\<not> sendable (snd (popDraft cfg s ch))"
  shows "result (sendDraft cfg env s ch None) = Inr ()
    \<and> calls (sendDraft cfg env s ch None) = []
    \<and> outbox (store (sendDraft cfg env s ch None)) = outbox s
    \<and> fileCache (store (sendDraft cfg env s ch None)) = fileCache s
    \<and> getDraft (store (sendDraft cfg env s ch None)) ch =
        \<lparr>content = Some [], replies = Some [],
         files = map_option (drop (MAX_ATTACHMENTS cfg)) (files (getDraft s ch))\<rparr>"
proof -
  from assms have "\<not> sendable (sent_draft cfg s ch None)"
    by (simp add: sent_draft_def)
  then have "sendDraft cfg env s ch None =
      \<lparr>result = Inr (), store = popped_store cfg s ch None, calls = []\<rparr>"
    by (rule sendDraft_nothing)
  moreover have "getDraft (popped_store cfg s ch None) ch =
        \<lparr>content = Some [], replies = Some [],
         files = map_option (drop (MAX_ATTACHMENTS cfg)) (files (getDraft s ch))\<rparr>"
    by (simp add: popped_store_def getDraft_popped)
  ultimately show ?thesis by simp
qed

text \<open>
  Claim C2. When an upload that \<open>sendDraft\<close> issued did not succeed, the call ends with
  the upload error, that upload is the last call it issued (no further attachment is
  tried and no message is sent), and the outbox of the channel is the one from before the
  call followed by the entry of this attempt, in status \<open>sending\<close>.
\<close>

theorem sendDraft_upload_error:
  assumes "Upload f \<in> set (calls (sendDraft cfg env s ch existing))"
    and "\<not> fst (xhr env f)"
  shows "result (sendDraft cfg env s ch existing) = Inl UploadError
    \<and> (\<exists>pre. calls (sendDraft cfg env s ch existing) = pre @ [Upload f])
    \<and> (\<forall>d k. SendMessage d k \<notin> set (calls (sendDraft cfg env s ch existing)))
    \<and> getPendingMessages (store (sendDraft cfg env s ch existing)) ch =
        getPendingMessages s ch @ [new_entry (sent_draft cfg s ch existing) (ulid env) Sending]"
proof -
  from assms(1) obtain err c' ids ups where
    sendable: "sendable (sent_draft cfg s ch existing)" and
    up: "uploadFiles (xhr env) (file_list (sent_draft cfg s ch existing)) (fileCache s) =
       (err, c', ids, ups)" and
    mem: "Upload f \<in> set ups"
    by (rule sendDraft_upload_inv)
  from uploadFiles_failed [OF up mem assms(2)]
  have err: "err = Some UploadError" and last: "\<exists>pre. ups = pre @ [Upload f]" by auto
  from sendDraft_aborted [OF sendable up [unfolded err]]
  have out: "sendDraft cfg env s ch existing =
     \<lparr>result = Inl UploadError, store = (queued_store cfg env s ch existing)\<lparr>fileCache := c'\<rparr>,
      calls = ups\<rparr>" .
  from uploadFiles_only_uploads [OF up] have "\<forall>d k. SendMessage d k \<notin> set ups" by blast
  with out last show ?thesis
    by (simp add: queued_store_pending)
qed

text \<open>
  Claim C3. When \<open>sendDraft\<close> issued the message-send call (so every upload before it
  succeeded) and that call failed, \<open>sendDraft\<close> returns normally; the outbox of the
  channel is the one from before the call with every entry carrying the attempt's key
  marked \<open>failed\<close> and any other entry unchanged, followed by the entry of this attempt
  with its content, replies and files, in status \<open>failed\<close>; the attachment cache holds
  entries for the same file ids as before, among them every file of the payload.
\<close>

theorem sendDraft_send_error:
  assumes "SendMessage d k \<in> set (calls (sendDraft cfg env s ch existing))"
    and "\<not> sendMessage env d k"
  shows "result (sendDraft cfg env s ch existing) = Inr ()
    \<and> getPendingMessages (store (sendDraft cfg env s ch existing)) ch =
        map (\<lambda>entry. if idempotencyKey entry = ulid env then entry\<lparr>status := Failed\<rparr> else entry)
          (getPendingMessages s ch)
        @ [new_entry (sent_draft cfg s ch existing) (ulid env) Failed]
    \<and> (ulid env \<notin> idempotencyKey ` set (getPendingMessages s ch) \<longrightarrow>
        getPendingMessages (store (sendDraft cfg env s ch existing)) ch =
          getPendingMessages s ch @ [new_entry (sent_draft cfg s ch existing) (ulid env) Failed])
    \<and> dom (fileCache (store (sendDraft cfg env s ch existing))) = dom (fileCache s)
    \<and> (\<forall>f \<in> set (file_list (sent_draft cfg s ch existing)).
          fileCache (store (sendDraft cfg env s ch existing)) f \<noteq> None)"
proof -
  let ?draft = "sent_draft cfg s ch existing"
  let ?mark = "\<lambda>entry::ReplyIntent UnsentMessage.
    if idempotencyKey entry = ulid env then entry\<lparr>status := Failed\<rparr> else entry"
  from assms(1) obtain c' ids ups where
    sendable: "sendable ?draft" and
    up: "uploadFiles (xhr env) (file_list ?draft) (fileCache s) = (None, c', ids, ups)" and
    d: "d = message_data ?draft ids" and k: "k = ulid env"
    by (rule sendDraft_send_inv)
  from assms(2) d k have "\<not> sendMessage env (message_data ?draft ids) (ulid env)" by simp
  from sendDraft_send_failed [OF sendable up this]
  have out: "sendDraft cfg env s ch existing =
     \<lparr>result = Inr (),
      store = set_outbox ((queued_store cfg env s ch existing)\<lparr>fileCache := c'\<rparr>) ch
                (map ?mark (getPendingMessages s ch @ [new_entry ?draft (ulid env) Sending])),
      calls = ups @ [SendMessage (message_data ?draft ids) (ulid env)]\<rparr>" .
  have marked: "?mark (new_entry ?draft (ulid env) Sending) = new_entry ?draft (ulid env) Failed"
    by (simp add: new_entry_def)
  have fresh: "map ?mark ms = ms" if "ulid env \<notin> idempotencyKey ` set ms" for ms
    using that by (induction ms) auto
  from uploadFiles_dom [OF up] have dom: "dom c' = dom (fileCache s)" .
  from uploadFiles_complete_cached [OF up] dom
  have cached: "\<forall>f \<in> set (file_list ?draft). c' f \<noteq> None" by auto
  from out marked fresh dom cached show ?thesis
    by simp
qed


lemma uploadFiles_uploads_in_order:
  "uploadFiles up fs c = (err, c', ids, cs) \<Longrightarrow> \<exists>ups. cs = map Upload ups \<and> subseq ups fs"
proof (induction fs arbitrary: c err c' ids cs)
  case Nil
  then show ?case by simp
next
  case (Cons g fs)
  show ?case
  proof (cases rule: upload_step_cases [where c = c and f = g and up = up])
    case Missing
    with Cons.prems have "cs = map Upload []" by (simp add: uploadFiles_missing)
    then show ?thesis by blast
  next
    case (Memo e a)
    with Cons.prems obtain ids2 where rec: "uploadFiles up fs c = (err, c', ids2, cs)"
      by (auto simp: uploadFiles_memo split: prod.splits)
    from Cons.IH [OF rec] obtain ups where "cs = map Upload ups" "subseq ups fs" by blast
    then have "cs = map Upload ups \<and> subseq ups (g # fs)" by (simp add: list_emb_Cons)
    then show ?thesis by blast
  next
    case (Fail e)
    with Cons.prems have "cs = map Upload [g] \<and> subseq [g] (g # fs)"
      by (simp add: uploadFiles_fail)
    then show ?thesis by blast
  next
    case (Null e)
    with Cons.prems have "cs = map Upload [g] \<and> subseq [g] (g # fs)"
      by (simp add: uploadFiles_null)
    then show ?thesis by blast
  next
    case (Ok e r)
    from Cons.prems Ok obtain ids2 cs2 where
      rec: "uploadFiles up fs (c(g \<mapsto> e\<lparr>uploadProgress := 1, autumnId := Some r\<rparr>)) = (err, c', ids2, cs2)"
      and eqs: "cs = Upload g # cs2"
      by (auto simp: uploadFiles_ok split: prod.splits)
    from Cons.IH [OF rec] obtain ups where "cs2 = map Upload ups" "subseq ups fs" by blast
    with eqs have "cs = map Upload (g # ups) \<and> subseq (g # ups) (g # fs)" by simp
    then show ?thesis by blast
  qed
qed

lemma subseq_member: "subseq xs ys \<Longrightarrow> x \<in> set xs \<Longrightarrow> x \<in> set ys"
  by (auto elim: list_emb_set)

lemma find_last:
  "\<forall>x \<in> set xs. \<not> P x \<Longrightarrow> P y \<Longrightarrow> find P (xs @ [y]) = Some y"
  by (induction xs) auto

lemma retry_after_send_error:
  assumes sendable: "sendable draft"
    and up: "uploadFiles (xhr env) (file_list draft) c0 = (None, c', ids, ups)"
    and nonempty: "\<forall>f \<in> set (file_list draft). attachment_id (xhr env) c0 f \<noteq> []"
    and fresh: "key \<notin> idempotencyKey ` set pending"
    and cache: "fileCache s1 = c'"
    and ob: "outbox s1 ch = Some (pending @ [new_entry draft key Failed])"
  shows "calls (retrySend cfg env2 s1 ch key) = [SendMessage (message_data draft ids) (ulid env2)]"
proof -
  let ?P = "\<lambda>entry::ReplyIntent UnsentMessage. idempotencyKey entry = key"
  from fresh have no: "\<forall>x \<in> set pending. \<not> ?P x" by auto
  have yes: "?P (new_entry draft key Failed)" by (simp add: new_entry_def)
  have found: "find ?P (pending @ [new_entry draft key Failed]) = Some (new_entry draft key Failed)"
    using no yes by (rule find_last)
  have pl: "payload (new_entry draft key Failed) = draft"
    by (simp add: payload_def new_entry_def)
  let ?s2 = "cancelSend s1 ch key"
  have retry: "retrySend cfg env2 s1 ch key = sendDraft cfg env2 ?s2 ch (Some draft)"
    by (simp add: retrySend_def ob found pl Let_def)
  have cache2: "fileCache ?s2 = c'"
    by (simp add: cancelSend_def cache)
  have sd: "sent_draft cfg ?s2 ch (Some draft) = draft"
    by (simp add: sent_draft_def)
  have memo: "\<exists>e. c' f = Some e \<and> memoized e = Some (attachment_id (xhr env) c0 f)"
    if "f \<in> set (file_list draft)" for f
    using up that nonempty by (intro uploadFiles_memoized_file) auto
  have "uploadFiles (xhr env2) (file_list draft) c' =
      (None, c', map (attachment_id (xhr env) c0) (file_list draft), [])"
    using memo by (rule uploadFiles_all_memoized)
  moreover have "ids = map (attachment_id (xhr env) c0) (file_list draft)"
    using up by (rule uploadFiles_ids)
  ultimately have up2: "uploadFiles (xhr env2) (file_list (sent_draft cfg ?s2 ch (Some draft)))
      (fileCache ?s2) = (None, c', ids, [])"
    by (simp add: sd cache2)
  from sendable have "sendable (sent_draft cfg ?s2 ch (Some draft))" by (simp add: sd)
  from sendDraft_sent_calls [OF this up2] retry sd show ?thesis by simp
qed

lemma retrySend_uploads_unmemoized:
  assumes "Upload f \<in> set (calls (retrySend cfg env2 s1 ch key))"
  shows "unmemoized (fileCache s1) f"
proof (cases "outbox s1 ch")
  case None
  with assms show ?thesis by (simp add: retrySend_def)
next
  case (Some ms)
  let ?s2 = "cancelSend s1 ch key"
  let ?d = "map_option payload (find (\<lambda>entry. idempotencyKey entry = key) ms)"
  from Some assms have "Upload f \<in> set (calls (sendDraft cfg env2 ?s2 ch ?d))"
    by (simp add: retrySend_def Let_def)
  then obtain err c' ids ups where
    up: "uploadFiles (xhr env2) (file_list (sent_draft cfg ?s2 ch ?d)) (fileCache ?s2) =
       (err, c', ids, ups)" and mem: "Upload f \<in> set ups"
    by (rule sendDraft_upload_inv)
  from up mem have "unmemoized (fileCache ?s2) f" by (rule uploadFiles_uploaded_unmemoized)
  then show ?thesis by (simp add: cancelSend_def)
qed

lemma uploadFiles_keeps_id:
  "uploadFiles up fs c = (err, c', ids, cs) \<Longrightarrow> c f = Some e \<Longrightarrow> autumnId e = Some r \<Longrightarrow>
   snd (up f) = RespId r \<Longrightarrow> \<exists>e'. c' f = Some e' \<and> autumnId e' = Some r"
proof (induction fs arbitrary: c err c' ids cs e)
  case Nil
  then show ?case by simp
next
  case (Cons g fs)
  show ?case
  proof (cases rule: upload_step_cases [where c = c and f = g and up = up])
    case (Memo e2 a)
    with Cons.prems obtain ids2 where rec: "uploadFiles up fs c = (err, c', ids2, cs)"
      by (auto simp: uploadFiles_memo split: prod.splits)
    from Cons.IH [OF rec Cons.prems(2,3,4)] show ?thesis .
  next
    case (Fail e2)
    with Cons.prems show ?thesis by (cases "f = g") (auto simp: uploadFiles_fail)
  next
    case (Null e2)
    with Cons.prems show ?thesis by (cases "f = g") (auto simp: uploadFiles_null)
  next
    case (Ok e2 r2)
    let ?e2 = "e2\<lparr>uploadProgress := 1, autumnId := Some r2\<rparr>"
    let ?c2 = "c(g \<mapsto> ?e2)"
    from Cons.prems Ok obtain ids2 cs2 where
      rec: "uploadFiles up fs ?c2 = (err, c', ids2, cs2)"
      by (auto simp: uploadFiles_ok split: prod.splits)
    show ?thesis
    proof (cases "f = g")
      case True
      with Ok Cons.prems have "?c2 f = Some ?e2" "autumnId ?e2 = Some r" by auto
      from Cons.IH [OF rec this Cons.prems(4)] show ?thesis .
    next
      case False
      with Cons.prems have "?c2 f = Some e" by simp
      from Cons.IH [OF rec this Cons.prems(3,4)] show ?thesis .
    qed
  qed (use Cons.prems in \<open>auto simp: uploadFiles_steps\<close>)
qed

lemma uploadFiles_upload_memoized:
  "uploadFiles up fs c = (err, c', ids, cs) \<Longrightarrow> Upload f \<in> set cs \<Longrightarrow> fst (up f) \<Longrightarrow>
   snd (up f) = RespId r \<Longrightarrow> \<exists>e. c' f = Some e \<and> autumnId e = Some r"
proof (induction fs arbitrary: c err c' ids cs)
  case Nil
  then show ?case by simp
next
  case (Cons g fs)
  show ?case
  proof (cases rule: upload_step_cases [where c = c and f = g and up = up])
    case (Memo e2 a)
    with Cons.prems obtain ids2 where rec: "uploadFiles up fs c = (err, c', ids2, cs)"
      by (auto simp: uploadFiles_memo split: prod.splits)
    from Cons.IH [OF rec Cons.prems(2,3,4)] show ?thesis .
  next
    case (Ok e2 r2)
    let ?e2 = "e2\<lparr>uploadProgress := 1, autumnId := Some r2\<rparr>"
    let ?c2 = "c(g \<mapsto> ?e2)"
    from Cons.prems Ok obtain ids2 cs2 where
      rec: "uploadFiles up fs ?c2 = (err, c', ids2, cs2)" and eqs: "cs = Upload g # cs2"
      by (auto simp: uploadFiles_ok split: prod.splits)
    show ?thesis
    proof (cases "f = g")
      case True
      with Ok Cons.prems have "?c2 f = Some ?e2" "autumnId ?e2 = Some r" by auto
      from uploadFiles_keeps_id [OF rec this Cons.prems(4)] show ?thesis .
    next
      case False
      with Cons.prems eqs have "Upload f \<in> set cs2" by simp
      from Cons.IH [OF rec this Cons.prems(3,4)] show ?thesis .
    qed
  qed (use Cons.prems in \<open>auto simp: uploadFiles_steps\<close>)
qed

lemma sendDraft_calls_shape:
  "\<exists>ups. subseq ups (file_list (sent_draft cfg s ch existing))
     \<and> (\<forall>f \<in> set ups. unmemoized (fileCache s) f)
     \<and> (calls (sendDraft cfg env s ch existing) = map Upload ups
        \<or> (\<exists>d. calls (sendDraft cfg env s ch existing) = map Upload ups @ [SendMessage d (ulid env)]))"
proof (cases "sendable (sent_draft cfg s ch existing)")
  case False
  then have "calls (sendDraft cfg env s ch existing) = map Upload []"
    by (simp add: sendDraft_nothing)
  then show ?thesis by (intro exI [of _ "[]"]) simp
next
  case True
  obtain err c' ids cs where
    up: "uploadFiles (xhr env) (file_list (sent_draft cfg s ch existing)) (fileCache s) =
       (err, c', ids, cs)"
    by (metis prod_cases4)
  from uploadFiles_uploads_in_order [OF up] obtain ups where
    ups: "cs = map Upload ups" "subseq ups (file_list (sent_draft cfg s ch existing))" by blast
  have un: "\<forall>f \<in> set ups. unmemoized (fileCache s) f"
    using uploadFiles_uploaded_unmemoized [OF up] ups(1) by auto
  show ?thesis
  proof (cases err)
    case None
    from sendDraft_sent_calls [OF True up [unfolded None]] ups un show ?thesis by blast
  next
    case (Some e)
    from sendDraft_aborted [OF True up [unfolded Some]] ups un show ?thesis by auto
  qed
qed

lemma sendDraft_upload_memoized:
  assumes "Upload f \<in> set (calls (sendDraft cfg env s ch existing))"
    and "fst (xhr env f)" and "snd (xhr env f) = RespId r"
    and "\<forall>d k. SendMessage d k \<in> set (calls (sendDraft cfg env s ch existing)) \<longrightarrow>
           \<not> sendMessage env d k"
  shows "\<exists>e. fileCache (store (sendDraft cfg env s ch existing)) f = Some e \<and> autumnId e = Some r"
proof -
  from assms(1) obtain err c' ids ups where
    sendable: "sendable (sent_draft cfg s ch existing)" and
    up: "uploadFiles (xhr env) (file_list (sent_draft cfg s ch existing)) (fileCache s) =
       (err, c', ids, ups)" and
    mem: "Upload f \<in> set ups"
    by (rule sendDraft_upload_inv)
  from uploadFiles_upload_memoized [OF up mem assms(2,3)]
  have memo: "\<exists>e. c' f = Some e \<and> autumnId e = Some r" .
  show ?thesis
  proof (cases err)
    case (Some e)
    from sendDraft_aborted [OF sendable up [unfolded Some]] memo show ?thesis by simp
  next
    case None
    note up' = up [unfolded None]
    from sendDraft_sent_calls [OF sendable up'] assms(4)
    have "\<not> sendMessage env (message_data (sent_draft cfg s ch existing) ids) (ulid env)"
      by simp
    from sendDraft_send_failed [OF sendable up' this] memo show ?thesis by simp
  qed
qed

text \<open>A call whose upload loop ran to its end: what it sent and which uploads it issued.\<close>

lemma sendDraft_completed:
  assumes sendable: "sendable (sent_draft cfg s ch existing)"
    and up: "uploadFiles (xhr env) (file_list (sent_draft cfg s ch existing)) (fileCache s) =
       (None, c', ids, ups)"
  shows "ids = map (attachment_id (xhr env) (fileCache s)) (file_list (sent_draft cfg s ch existing))"
    and "\<exists>us. calls (sendDraft cfg env s ch existing) =
            map Upload us @ [SendMessage (message_data (sent_draft cfg s ch existing) ids) (ulid env)]
          \<and> subseq us (file_list (sent_draft cfg s ch existing))
          \<and> set us = {f \<in> set (file_list (sent_draft cfg s ch existing)).
                         unmemoized (fileCache s) f}"
proof -
  let ?fs = "file_list (sent_draft cfg s ch existing)"
  show "ids = map (attachment_id (xhr env) (fileCache s)) ?fs"
    using up by (rule uploadFiles_ids)
  from uploadFiles_uploads_in_order [OF up] obtain us where
    us: "ups = map Upload us" "subseq us ?fs" by blast
  have "set us = {f \<in> set ?fs. unmemoized (fileCache s) f}"
  proof (intro set_eqI iffI)
    fix f assume "f \<in> set us"
    with us have "Upload f \<in> set ups" "f \<in> set ?fs"
      by (auto dest: subseq_member)
    with uploadFiles_uploaded_unmemoized [OF up]
    show "f \<in> {f \<in> set ?fs. unmemoized (fileCache s) f}" by simp
  next
    fix f assume "f \<in> {f \<in> set ?fs. unmemoized (fileCache s) f}"
    then have "Upload f \<in> set ups" using uploadFiles_all_uploaded [OF up] by simp
    with us show "f \<in> set us" by auto
  qed
  with us sendDraft_sent_calls [OF sendable up]
  show "\<exists>us. calls (sendDraft cfg env s ch existing) =
            map Upload us @ [SendMessage (message_data (sent_draft cfg s ch existing) ids) (ulid env)]
          \<and> subseq us ?fs \<and> set us = {f \<in> set ?fs. unmemoized (fileCache s) f}"
    by auto
qed

text \<open>
  Progress: with something to send, every file cached and every upload that is needed
  answering with an id, the message is sent.
\<close>

lemma sendDraft_progress:
  assumes sendable: "sendable (sent_draft cfg s ch existing)"
    and cached: "set (file_list (sent_draft cfg s ch existing)) \<subseteq> dom (fileCache s)"
    and ok: "\<forall>f \<in> set (file_list (sent_draft cfg s ch existing)).
               unmemoized (fileCache s) f \<longrightarrow> fst (xhr env f) \<and> snd (xhr env f) \<noteq> RespNull"
  shows "\<exists>us. calls (sendDraft cfg env s ch existing) =
            map Upload us @
              [SendMessage (message_data (sent_draft cfg s ch existing)
                  (map (attachment_id (xhr env) (fileCache s))
                     (file_list (sent_draft cfg s ch existing)))) (ulid env)]
          \<and> subseq us (file_list (sent_draft cfg s ch existing))
          \<and> set us = {f \<in> set (file_list (sent_draft cfg s ch existing)).
                         unmemoized (fileCache s) f}"
proof -
  from ok have "\<exists>c' ids cs.
      uploadFiles (xhr env) (file_list (sent_draft cfg s ch existing)) (fileCache s) =
        (None, c', ids, cs)"
    by (intro uploadFiles_no_error [OF cached]) auto
  then obtain c' ids cs where
    up: "uploadFiles (xhr env) (file_list (sent_draft cfg s ch existing)) (fileCache s) =
        (None, c', ids, cs)" by blast
  from sendDraft_completed [OF sendable up] show ?thesis by simp
qed

text \<open>
  The loop reaches a file when every file before it is cached and, where it needs an
  upload, gets an id; a file reached for the first time without a memoized id is uploaded.
\<close>

lemma sendDraft_reaches:
  assumes sendable: "sendable (sent_draft cfg s ch existing)"
    and split: "file_list (sent_draft cfg s ch existing) = pre @ f # post"
    and cached: "set pre \<subseteq> dom (fileCache s)"
    and ok: "\<forall>g \<in> set pre. unmemoized (fileCache s) g \<longrightarrow>
               fst (xhr env g) \<and> snd (xhr env g) \<noteq> RespNull"
    and first: "f \<notin> set pre"
    and un: "unmemoized (fileCache s) f"
  shows "Upload f \<in> set (calls (sendDraft cfg env s ch existing))"
proof -
  obtain err c' ids cs where
    up: "uploadFiles (xhr env) (file_list (sent_draft cfg s ch existing)) (fileCache s) =
       (err, c', ids, cs)"
    by (metis prod_cases4)
  from ok have ok': "\<And>g. g \<in> set pre \<Longrightarrow> unmemoized (fileCache s) g \<Longrightarrow>
      fst (xhr env g) \<and> snd (xhr env g) \<noteq> RespNull" by blast
  from up have "uploadFiles (xhr env) (pre @ f # post) (fileCache s) = (err, c', ids, cs)"
    by (simp add: split)
  with cached ok' first un have mem: "Upload f \<in> set cs"
    by (rule uploadFiles_reaches)
  show ?thesis
  proof (cases err)
    case None
    from sendDraft_sent_calls [OF sendable up [unfolded None]] mem show ?thesis by simp
  next
    case (Some e)
    from sendDraft_aborted [OF sendable up [unfolded Some]] mem show ?thesis by simp
  qed
qed

text \<open>A call that issued the message-send: the ids it sent, and what a retry then does.\<close>

lemma sendDraft_sent_attachments:
  "(\<forall>d k. SendMessage d k \<in> set (calls (sendDraft cfg env s ch existing)) \<longrightarrow>
        d = message_data (sent_draft cfg s ch existing)
              (map (attachment_id (xhr env) (fileCache s)) (file_list (sent_draft cfg s ch existing)))
        \<and> (\<exists>ups. calls (sendDraft cfg env s ch existing) = map Upload ups @ [SendMessage d k]
               \<and> subseq ups (file_list (sent_draft cfg s ch existing))
               \<and> set ups = {f \<in> set (file_list (sent_draft cfg s ch existing)).
                              unmemoized (fileCache s) f})
        \<and> (\<not> sendMessage env d k \<longrightarrow>
             (\<forall>f \<in> set (file_list (sent_draft cfg s ch existing)).
                attachment_id (xhr env) (fileCache s) f \<noteq> [] \<longrightarrow>
                (\<exists>e. fileCache (store (sendDraft cfg env s ch existing)) f = Some e
                    \<and> memoized e = Some (attachment_id (xhr env) (fileCache s) f))
                \<and> (\<forall>env2 key. Upload f \<notin> set (calls
                      (retrySend cfg env2 (store (sendDraft cfg env s ch existing)) ch key))))
             \<and> ((\<forall>f \<in> set (file_list (sent_draft cfg s ch existing)).
                    attachment_id (xhr env) (fileCache s) f \<noteq> [])
                \<and> ulid env \<notin> idempotencyKey ` set (getPendingMessages s ch) \<longrightarrow>
                  (\<forall>env2. calls (retrySend cfg env2 (store (sendDraft cfg env s ch existing)) ch (ulid env))
                            = [SendMessage d (ulid env2)]))))"
proof (intro allI impI)
  let ?draft = "sent_draft cfg s ch existing"
  let ?fs = "file_list ?draft"
  let ?out = "sendDraft cfg env s ch existing"
  let ?A = "attachment_id (xhr env) (fileCache s)"
  fix d k
  assume sent: "SendMessage d k \<in> set (calls ?out)"
  then obtain c' ids ups where
    sendable: "sendable ?draft" and
    up: "uploadFiles (xhr env) ?fs (fileCache s) = (None, c', ids, ups)" and
    d: "d = message_data ?draft ids" and k: "k = ulid env"
    by (rule sendDraft_send_inv)
  note fin = sendDraft_completed [OF sendable up]
  have part1: "d = message_data ?draft (map ?A ?fs)"
    using d fin(1) by simp
  have part2: "\<exists>ups. calls ?out = map Upload ups @ [SendMessage d k]
               \<and> subseq ups ?fs \<and> set ups = {f \<in> set ?fs. unmemoized (fileCache s) f}"
    using fin(2) d k by simp
  have part3: "(\<forall>f \<in> set ?fs. ?A f \<noteq> [] \<longrightarrow>
                (\<exists>e. fileCache (store ?out) f = Some e \<and> memoized e = Some (?A f))
                \<and> (\<forall>env2 key. Upload f \<notin> set (calls (retrySend cfg env2 (store ?out) ch key))))
             \<and> ((\<forall>f \<in> set ?fs. ?A f \<noteq> [])
                \<and> ulid env \<notin> idempotencyKey ` set (getPendingMessages s ch) \<longrightarrow>
                  (\<forall>env2. calls (retrySend cfg env2 (store ?out) ch (ulid env))
                            = [SendMessage d (ulid env2)]))"
    if failed: "\<not> sendMessage env d k"
  proof (intro conjI ballI impI allI)
    from failed d k have "\<not> sendMessage env (message_data ?draft ids) (ulid env)" by simp
    note out = sendDraft_send_failed [OF sendable up this]
    have cache: "fileCache (store ?out) = c'"
      using out by simp
    {
      fix f
      assume f: "f \<in> set ?fs" "?A f \<noteq> []"
      from uploadFiles_memoized_file [OF up f]
      obtain e where e: "c' f = Some e" "memoized e = Some (?A f)" by blast
      with cache show "\<exists>e. fileCache (store ?out) f = Some e \<and> memoized e = Some (?A f)"
        by simp
      fix env2 key
      show "Upload f \<notin> set (calls (retrySend cfg env2 (store ?out) ch key))"
      proof
        assume "Upload f \<in> set (calls (retrySend cfg env2 (store ?out) ch key))"
        then have "unmemoized (fileCache (store ?out)) f"
          by (rule retrySend_uploads_unmemoized)
        with cache e show False by (simp add: unmemoized_def)
      qed
    }
    fix env2
    assume h: "(\<forall>f \<in> set ?fs. ?A f \<noteq> [])
        \<and> ulid env \<notin> idempotencyKey ` set (getPendingMessages s ch)"
    then have fresh: "ulid env \<notin> idempotencyKey ` set (getPendingMessages s ch)"
      and nonempty: "\<forall>f \<in> set ?fs. ?A f \<noteq> []" by simp_all
    have m: "map (\<lambda>entry. if idempotencyKey entry = ulid env then entry\<lparr>status := Failed\<rparr> else entry) ms = ms"
      if "ulid env \<notin> idempotencyKey ` set ms" for ms :: "ReplyIntent UnsentMessage list"
      using that by (induction ms) auto
    have ob: "outbox (store ?out) ch =
        Some (getPendingMessages s ch @ [new_entry ?draft (ulid env) Failed])"
      using out m [OF fresh] by (simp add: set_outbox_def new_entry_def)
    from retry_after_send_error [OF sendable up nonempty fresh cache ob] d
    show "calls (retrySend cfg env2 (store ?out) ch (ulid env)) = [SendMessage d (ulid env2)]"
      by simp
  qed
  from part1 part2 part3
  show "d = message_data ?draft (map ?A ?fs)
        \<and> (\<exists>ups. calls ?out = map Upload ups @ [SendMessage d k]
               \<and> subseq ups ?fs \<and> set ups = {f \<in> set ?fs. unmemoized (fileCache s) f})
        \<and> (\<not> sendMessage env d k \<longrightarrow>
             (\<forall>f \<in> set ?fs. ?A f \<noteq> [] \<longrightarrow>
                (\<exists>e. fileCache (store ?out) f = Some e \<and> memoized e = Some (?A f))
                \<and> (\<forall>env2 key. Upload f \<notin> set (calls (retrySend cfg env2 (store ?out) ch key))))
             \<and> ((\<forall>f \<in> set ?fs. ?A f \<noteq> [])
                \<and> ulid env \<notin> idempotencyKey ` set (getPendingMessages s ch) \<longrightarrow>
                  (\<forall>env2. calls (retrySend cfg env2 (store ?out) ch (ulid env))
                            = [SendMessage d (ulid env2)])))"
    by blast
qed

text \<open>
  Claim C4, as the code has it. The calls \<open>sendDraft\<close> issues are uploads of files of the
  payload, in the order of the files array and only for files whose cache entry holds no
  memoized id, followed by at most one message-send. An upload that succeeded has its
  returned id on the cache entry afterwards (unless the message was sent, which releases
  the entry). A file without a memoized id is uploaded as soon as the loop reaches it for
  the first time, which it does when every file before it is cached and got an id where
  it needed an upload. When every file is cached and every needed upload answers with an
  id, the message is sent after exactly the uploads of the files without a memoized id,
  and with the attachment ids, file by file in the order of the array, that are the
  memoized id or else the id the upload returned. When that send fails, a file whose
  attachment id is not the empty string has the id memoized on its cache entry and no
  later \<open>retrySend\<close> uploads it; when this holds of every file and the attempt's key is
  that of no older entry, the only call of the retry is the message-send with the same
  content, replies and attachment ids under the new key. (The code reuses an id only if
  it is truthy: \<open>if (autumnId)\<close>.)
\<close>

theorem sendDraft_attachments:
  "(\<exists>ups. subseq ups (file_list (sent_draft cfg s ch existing))
     \<and> (\<forall>f \<in> set ups. unmemoized (fileCache s) f)
     \<and> (calls (sendDraft cfg env s ch existing) = map Upload ups
        \<or> (\<exists>d. calls (sendDraft cfg env s ch existing) = map Upload ups @ [SendMessage d (ulid env)])))
   \<and> (\<forall>f r. Upload f \<in> set (calls (sendDraft cfg env s ch existing))
          \<and> fst (xhr env f) \<and> snd (xhr env f) = RespId r
          \<and> (\<forall>d k. SendMessage d k \<in> set (calls (sendDraft cfg env s ch existing)) \<longrightarrow>
                 \<not> sendMessage env d k) \<longrightarrow>
          (\<exists>e. fileCache (store (sendDraft cfg env s ch existing)) f = Some e \<and> autumnId e = Some r))
   \<and> (\<forall>pre f post.
          sendable (sent_draft cfg s ch existing)
          \<and> file_list (sent_draft cfg s ch existing) = pre @ f # post
          \<and> set pre \<subseteq> dom (fileCache s)
          \<and> (\<forall>g \<in> set pre. unmemoized (fileCache s) g \<longrightarrow>
                 fst (xhr env g) \<and> snd (xhr env g) \<noteq> RespNull)
          \<and> f \<notin> set pre \<and> unmemoized (fileCache s) f \<longrightarrow>
          Upload f \<in> set (calls (sendDraft cfg env s ch existing)))
   \<and> (sendable (sent_draft cfg s ch existing)
        \<and> set (file_list (sent_draft cfg s ch existing)) \<subseteq> dom (fileCache s)
        \<and> (\<forall>f \<in> set (file_list (sent_draft cfg s ch existing)).
               unmemoized (fileCache s) f \<longrightarrow> fst (xhr env f) \<and> snd (xhr env f) \<noteq> RespNull) \<longrightarrow>
        (\<exists>us. calls (sendDraft cfg env s ch existing) =
            map Upload us @
              [SendMessage (message_data (sent_draft cfg s ch existing)
                  (map (attachment_id (xhr env) (fileCache s))
                     (file_list (sent_draft cfg s ch existing)))) (ulid env)]
          \<and> subseq us (file_list (sent_draft cfg s ch existing))
          \<and> set us = {f \<in> set (file_list (sent_draft cfg s ch existing)).
                         unmemoized (fileCache s) f}))
   \<and> (\<forall>d k. SendMessage d k \<in> set (calls (sendDraft cfg env s ch existing)) \<longrightarrow>
        d = message_data (sent_draft cfg s ch existing)
              (map (attachment_id (xhr env) (fileCache s)) (file_list (sent_draft cfg s ch existing)))
        \<and> (\<exists>ups. calls (sendDraft cfg env s ch existing) = map Upload ups @ [SendMessage d k]
               \<and> subseq ups (file_list (sent_draft cfg s ch existing))
               \<and> set ups = {f \<in> set (file_list (sent_draft cfg s ch existing)).
                              unmemoized (fileCache s) f})
        \<and> (\<not> sendMessage env d k \<longrightarrow>
             (\<forall>f \<in> set (file_list (sent_draft cfg s ch existing)).
                attachment_id (xhr env) (fileCache s) f \<noteq> [] \<longrightarrow>
                (\<exists>e. fileCache (store (sendDraft cfg env s ch existing)) f = Some e
                    \<and> memoized e = Some (attachment_id (xhr env) (fileCache s) f))
                \<and> (\<forall>env2 key. Upload f \<notin> set (calls
                      (retrySend cfg env2 (store (sendDraft cfg env s ch existing)) ch key))))
             \<and> ((\<forall>f \<in> set (file_list (sent_draft cfg s ch existing)).
                    attachment_id (xhr env) (fileCache s) f \<noteq> [])
                \<and> ulid env \<notin> idempotencyKey ` set (getPendingMessages s ch) \<longrightarrow>
                  (\<forall>env2. calls (retrySend cfg env2 (store (sendDraft cfg env s ch existing)) ch (ulid env))
                            = [SendMessage d (ulid env2)]))))"
proof (intro conjI)
  show "\<exists>ups. subseq ups (file_list (sent_draft cfg s ch existing))
     \<and> (\<forall>f \<in> set ups. unmemoized (fileCache s) f)
     \<and> (calls (sendDraft cfg env s ch existing) = map Upload ups
        \<or> (\<exists>d. calls (sendDraft cfg env s ch existing) = map Upload ups @ [SendMessage d (ulid env)]))"
    by (rule sendDraft_calls_shape)
  show "\<forall>f r. Upload f \<in> set (calls (sendDraft cfg env s ch existing))
          \<and> fst (xhr env f) \<and> snd (xhr env f) = RespId r
          \<and> (\<forall>d k. SendMessage d k \<in> set (calls (sendDraft cfg env s ch existing)) \<longrightarrow>
                 \<not> sendMessage env d k) \<longrightarrow>
          (\<exists>e. fileCache (store (sendDraft cfg env s ch existing)) f = Some e \<and> autumnId e = Some r)"
    using sendDraft_upload_memoized [of _ cfg env s ch existing] by blast
  show "\<forall>pre f post.
          sendable (sent_draft cfg s ch existing)
          \<and> file_list (sent_draft cfg s ch existing) = pre @ f # post
          \<and> set pre \<subseteq> dom (fileCache s)
          \<and> (\<forall>g \<in> set pre. unmemoized (fileCache s) g \<longrightarrow>
                 fst (xhr env g) \<and> snd (xhr env g) \<noteq> RespNull)
          \<and> f \<notin> set pre \<and> unmemoized (fileCache s) f \<longrightarrow>
          Upload f \<in> set (calls (sendDraft cfg env s ch existing))"
    using sendDraft_reaches [of cfg s ch existing _ _ _ env] by blast
  show "sendable (sent_draft cfg s ch existing)
        \<and> set (file_list (sent_draft cfg s ch existing)) \<subseteq> dom (fileCache s)
        \<and> (\<forall>f \<in> set (file_list (sent_draft cfg s ch existing)).
               unmemoized (fileCache s) f \<longrightarrow> fst (xhr env f) \<and> snd (xhr env f) \<noteq> RespNull) \<longrightarrow>
        (\<exists>us. calls (sendDraft cfg env s ch existing) =
            map Upload us @
              [SendMessage (message_data (sent_draft cfg s ch existing)
                  (map (attachment_id (xhr env) (fileCache s))
                     (file_list (sent_draft cfg s ch existing)))) (ulid env)]
          \<and> subseq us (file_list (sent_draft cfg s ch existing))
          \<and> set us = {f \<in> set (file_list (sent_draft cfg s ch existing)).
                         unmemoized (fileCache s) f})"
    using sendDraft_progress [of cfg s ch existing env] by blast
qed (rule sendDraft_sent_attachments)

lemmas store_defs =
  default_store_def getDraft_def set_drafts_def set_outbox_def getPendingMessages_def
  merge_draft_def empty_draft_def popDraft_def Let_def new_entry_def memoized_def
  ex_cfg_def ex_entry_def

lemma reply_store_eq:
  "reply_store = default_store
     \<lparr>drafts := [''c'' \<mapsto> \<lparr>content = None,
         replies = Some [\<lparr>reply_id = ''m1'', reply_mention = True\<rparr>], files = None\<rparr>]\<rparr>"
  by (simp add: reply_store_def addReply_def ex_message_def store_defs)

lemma send_reply_store:
  "sendDraft ex_cfg env reply_store ''c'' None =
     \<lparr>result = Inr (),
      store = default_store
        \<lparr>drafts := [''c'' \<mapsto> \<lparr>content = Some [], replies = Some [], files = None\<rparr>]\<rparr>,
      calls = []\<rparr>"
  by (simp add: reply_store_eq sendDraft_def store_defs)

theorem sendDraft_nothing_to_send_witness:
  "\<not> sendable (snd (popDraft ex_cfg reply_store ''c''))
   \<and> calls (sendDraft ex_cfg env_retry reply_store ''c'' None) = []
   \<and> outbox (store (sendDraft ex_cfg env_retry reply_store ''c'' None)) = outbox reply_store
   \<and> getDraft (store (sendDraft ex_cfg env_retry reply_store ''c'' None)) ''c'' =
       \<lparr>content = Some [], replies = Some [], files = None\<rparr>"
  using sendDraft_nothing_to_send [of ex_cfg reply_store "''c''" env_retry]
  by (simp add: sendable_def reply_store_eq store_defs)

text \<open>
  A draft that holds only a reply: \<open>sendDraft\<close> sends nothing, and the reply is gone
  from the stored draft.
\<close>

theorem sendDraft_empty_discards_replies:
  "replies (getDraft reply_store ''c'') = Some [\<lparr>reply_id = ''m1'', reply_mention = True\<rparr>]
   \<and> replies (getDraft (store (sendDraft ex_cfg env_retry reply_store ''c'' None)) ''c'') = Some []
   \<and> getDraft (store (sendDraft ex_cfg env_retry reply_store ''c'' None)) ''c'' \<noteq>
       getDraft reply_store ''c''"
  by (simp add: send_reply_store) (simp add: reply_store_eq store_defs)

lemma send_upload_fails:
  "sendDraft ex_cfg env_upload_fails ex_store ''c'' None =
     \<lparr>result = Inl UploadError,
      store = default_store
        \<lparr>drafts := [''c'' \<mapsto> \<lparr>content = Some [], replies = Some [], files = Some []\<rparr>],
         outbox := [''c'' \<mapsto> [new_entry \<lparr>content = Some ''hi'', replies = None, files = Some [''f1'']\<rparr>
                                   ''k1'' Sending]],
         fileCache := [''f1'' \<mapsto> ex_entry\<lparr>uploadProgress := 1\<rparr>]\<rparr>,
      calls = [Upload ''f1'']\<rparr>"
  by (simp add: sendDraft_def ex_store_def env_upload_fails_def store_defs uploadFiles.simps(2))

theorem sendDraft_upload_error_witness:
  "\<not> fst (xhr env_upload_fails ''f1'')
   \<and> calls (sendDraft ex_cfg env_upload_fails ex_store ''c'' None) = [Upload ''f1'']
   \<and> result (sendDraft ex_cfg env_upload_fails ex_store ''c'' None) = Inl UploadError
   \<and> map status (getPendingMessages (store (sendDraft ex_cfg env_upload_fails ex_store ''c'' None)) ''c'')
       = [Sending]"
  using sendDraft_upload_error [of "''f1''" ex_cfg env_upload_fails ex_store "''c''" None]
  by (simp add: send_upload_fails) (simp add: env_upload_fails_def store_defs)


lemma send_send_fails:
  "sendDraft ex_cfg env_send_fails ex_store ''c'' None =
     \<lparr>result = Inr (),
      store = default_store
        \<lparr>drafts := [''c'' \<mapsto> \<lparr>content = Some [], replies = Some [], files = Some []\<rparr>],
         outbox := [''c'' \<mapsto> [new_entry \<lparr>content = Some ''hi'', replies = None, files = Some [''f1'']\<rparr>
                                   ''k1'' Failed]],
         fileCache := [''f1'' \<mapsto> ex_entry\<lparr>uploadProgress := 1, autumnId := Some ''srv-f1''\<rparr>]\<rparr>,
      calls = [Upload ''f1'', SendMessage (hi_data [''srv-f1'']) ''k1'']\<rparr>"
  by (simp add: sendDraft_def ex_store_def env_send_fails_def store_defs uploadFiles.simps(2)
        hi_data_def)

theorem sendDraft_send_error_witness:
  "SendMessage (hi_data [''srv-f1'']) ''k1'' \<in>
     set (calls (sendDraft ex_cfg env_send_fails ex_store ''c'' None))
   \<and> \<not> sendMessage env_send_fails (hi_data [''srv-f1'']) ''k1''
   \<and> getPendingMessages (store (sendDraft ex_cfg env_send_fails ex_store ''c'' None)) ''c'' =
       [\<lparr>content = Some ''hi'', replies = None, files = Some [''f1''],
         idempotencyKey = ''k1'', status = Failed\<rparr>]
   \<and> getFile (store (sendDraft ex_cfg env_send_fails ex_store ''c'' None)) ''f1'' \<noteq> None"
  using sendDraft_send_error [of "hi_data [''srv-f1'']" "''k1''" ex_cfg env_send_fails ex_store "''c''" None]
  by (simp add: send_send_fails) (simp add: env_send_fails_def getFile_def store_defs)

lemma send_two_files:
  "sendDraft ex_cfg env_send_fails two_files_store ''c'' None =
     \<lparr>result = Inr (),
      store = default_store
        \<lparr>drafts := [''c'' \<mapsto> \<lparr>content = Some [], replies = Some [], files = Some []\<rparr>],
         outbox := [''c'' \<mapsto> [new_entry \<lparr>content = Some ''hi'', replies = None,
                                    files = Some [''f1'', ''f2'']\<rparr> ''k1'' Failed]],
         fileCache := [''f1'' \<mapsto> ex_entry\<lparr>uploadProgress := 1, autumnId := Some ''srv-f1''\<rparr>,
                       ''f2'' \<mapsto> ex_entry\<lparr>autumnId := Some ''old''\<rparr>]\<rparr>,
      calls = [Upload ''f1'', SendMessage (hi_data [''srv-f1'', ''old'']) ''k1'']\<rparr>"
  by (simp add: sendDraft_def two_files_store_def env_send_fails_def store_defs uploadFiles.simps(2)
        hi_data_def fun_upd_twist)

lemma two_files_sent_draft:
  "sent_draft ex_cfg two_files_store ''c'' None =
     \<lparr>content = Some ''hi'', replies = None, files = Some [''f1'', ''f2'']\<rparr>"
  by (simp add: sent_draft_def two_files_store_def store_defs)

theorem sendDraft_attachments_witness:
  "set (file_list (sent_draft ex_cfg two_files_store ''c'' None)) \<subseteq> dom (fileCache two_files_store)
   \<and> unmemoized (fileCache two_files_store) ''f1''
   \<and> \<not> unmemoized (fileCache two_files_store) ''f2''
   \<and> calls (sendDraft ex_cfg env_send_fails two_files_store ''c'' None) =
       [Upload ''f1'', SendMessage (hi_data [''srv-f1'', ''old'']) ''k1'']
   \<and> \<not> sendMessage env_send_fails (hi_data [''srv-f1'', ''old'']) ''k1''
   \<and> map_option memoized
        (getFile (store (sendDraft ex_cfg env_send_fails two_files_store ''c'' None)) ''f1'') =
       Some (Some ''srv-f1'')
   \<and> calls (retrySend ex_cfg env_retry
        (store (sendDraft ex_cfg env_send_fails two_files_store ''c'' None)) ''c'' ''k1'') =
       [SendMessage (hi_data [''srv-f1'', ''old'']) ''k2'']"
proof -
  have fs: "file_list (sent_draft ex_cfg two_files_store ''c'' None) = [''f1'', ''f2'']"
    by (simp add: two_files_sent_draft file_list_def)
  have cached: "set (file_list (sent_draft ex_cfg two_files_store ''c'' None))
      \<subseteq> dom (fileCache two_files_store)"
    by (simp add: fs) (simp add: two_files_store_def default_store_def)
  have un: "unmemoized (fileCache two_files_store) ''f1''"
      "\<not> unmemoized (fileCache two_files_store) ''f2''"
    by (simp_all add: unmemoized_def two_files_store_def default_store_def ex_entry_def memoized_def)
  have ids: "\<forall>f \<in> set (file_list (sent_draft ex_cfg two_files_store ''c'' None)).
      attachment_id (xhr env_send_fails) (fileCache two_files_store) f \<noteq> []"
    by (simp add: fs)
       (simp add: attachment_id_def two_files_store_def default_store_def ex_entry_def
          memoized_def env_send_fails_def)
  have nf: "\<not> sendMessage env_send_fails (hi_data [''srv-f1'', ''old'']) ''k1''"
    by (simp add: env_send_fails_def)
  have k: "ulid env_send_fails = ''k1''" "ulid env_retry = ''k2''"
    by (simp_all add: env_send_fails_def env_retry_def)
  have fresh: "ulid env_send_fails \<notin> idempotencyKey ` set (getPendingMessages two_files_store ''c'')"
    by (simp add: two_files_store_def store_defs)
  have sent: "SendMessage (hi_data [''srv-f1'', ''old'']) ''k1'' \<in>
      set (calls (sendDraft ex_cfg env_send_fails two_files_store ''c'' None))"
    by (simp add: send_two_files)
  from sendDraft_attachments [where cfg = ex_cfg and env = env_send_fails and s = two_files_store
      and ch = "''c''" and existing = None] sent nf ids fresh
  have "\<forall>env2. calls (retrySend ex_cfg env2
        (store (sendDraft ex_cfg env_send_fails two_files_store ''c'' None)) ''c'' ''k1'') =
       [SendMessage (hi_data [''srv-f1'', ''old'']) (ulid env2)]"
    unfolding k(1) by blast
  then have "calls (retrySend ex_cfg env_retry
        (store (sendDraft ex_cfg env_send_fails two_files_store ''c'' None)) ''c'' ''k1'') =
       [SendMessage (hi_data [''srv-f1'', ''old'']) ''k2'']"
    by (simp add: k(2))
  with cached un nf show ?thesis
    by (simp add: send_two_files getFile_def memoized_def)
qed

lemma send_empty_id:
  "sendDraft ex_cfg env_empty_id ex_store ''c'' None =
     \<lparr>result = Inr (),
      store = default_store
        \<lparr>drafts := [''c'' \<mapsto> \<lparr>content = Some [], replies = Some [], files = Some []\<rparr>],
         outbox := [''c'' \<mapsto> [new_entry \<lparr>content = Some ''hi'', replies = None, files = Some [''f1'']\<rparr>
                                   ''k1'' Failed]],
         fileCache := [''f1'' \<mapsto> ex_entry\<lparr>uploadProgress := 1, autumnId := Some []\<rparr>]\<rparr>,
      calls = [Upload ''f1'', SendMessage (hi_data [[]]) ''k1'']\<rparr>"
  by (simp add: sendDraft_def ex_store_def env_empty_id_def store_defs uploadFiles.simps(2)
        hi_data_def)

text \<open>
  The upload of \<open>f1\<close> succeeds with the empty string as its id, which is put on the cache
  entry and sent; the send fails. \<open>retrySend\<close> of that attempt uploads \<open>f1\<close> again.
\<close>

theorem retrySend_uploads_again:
  "calls (sendDraft ex_cfg env_empty_id ex_store ''c'' None) =
     [Upload ''f1'', SendMessage (hi_data [[]]) ''k1'']
   \<and> map_option autumnId
        (getFile (store (sendDraft ex_cfg env_empty_id ex_store ''c'' None)) ''f1'') = Some (Some [])
   \<and> Upload ''f1'' \<in> set (calls (retrySend ex_cfg env_retry
        (store (sendDraft ex_cfg env_empty_id ex_store ''c'' None)) ''c'' ''k1''))"
  by (simp add: send_empty_id)
     (simp add: retrySend_def cancelSend_def payload_def sendDraft_def env_retry_def getFile_def
        store_defs uploadFiles.simps(2))

section \<open>Cleaning a persisted outbox\<close>

lemma clean_message_ok:
  "clean_message message ms = Inr ms' \<Longrightarrow> list_all entry_ok ms \<Longrightarrow> list_all entry_ok ms'"
  by (auto simp: clean_message_def entry_ok_def Let_def split: if_splits sum.splits)

lemma clean_messages_ok:
  "clean_messages xs ms = Inr ms' \<Longrightarrow> list_all entry_ok ms \<Longrightarrow> list_all entry_ok ms'"
  by (induction xs arbitrary: ms) (auto split: sum.splits dest: clean_message_ok)

lemma clean_outbox_ok:
  "clean_outbox pm ks acc = Inr ob \<Longrightarrow>
   (\<And>ch ms. acc ch = Some ms \<Longrightarrow> list_all entry_ok ms) \<Longrightarrow>
   ob ch = Some ms \<Longrightarrow> list_all entry_ok ms"
proof (induction ks arbitrary: acc)
  case Nil
  then show ?case by simp
next
  case (Cons k ks)
  from Cons.prems(1) obtain msgs where
    msgs: "clean_messages (array_items (opt_prop pm k)) [] = Inr msgs" and
    rec: "clean_outbox pm ks (acc(k \<mapsto> msgs)) = Inr ob"
    by (auto split: sum.splits)
  from clean_messages_ok [OF msgs] have "list_all entry_ok msgs" by simp
  with Cons.prems(2) have "\<And>ch ms. (acc(k \<mapsto> msgs)) ch = Some ms \<Longrightarrow> list_all entry_ok ms"
    by (auto split: if_splits)
  from Cons.IH [OF rec this Cons.prems(3)] show ?case .
qed

text \<open>
  Whatever \<open>clean\<close> returns, every entry of its outbox is unsent, has no files and has a
  content.
\<close>

lemma clean_outbox_entries:
  "clean input_drafts input_outbox = Inr out \<Longrightarrow> outbox out ch = Some ms \<Longrightarrow>
   list_all entry_ok ms"
  by (auto simp: clean_def split: if_splits sum.splits dest: clean_outbox_ok)

lemma validateReplies_zero: "validateReplies (JArr [JNum 0]) = Inr True"
  by (simp add: validateReplies_def bad_reply_def)

text \<open>
  Claim C10. An entry of the cleaned outbox is to be unsent, without files, and to keep of
  the persisted entry its key, its content and, only when they are well-formed and not
  empty, its replies. The entry persisted with the replies \<open>[0]\<close> comes out unsent and
  without files, but with those replies: \<open>0\<close> is not an object with a string \<open>id\<close> and
  a boolean \<open>mention\<close>, \<open>find\<close> returns it, and its negation is true.
\<close>

theorem clean_keeps_malformed_replies:
  "clean JUndefined bad_outbox =
     Inr \<lparr>drafts = Map.empty,
          outbox = [''c'' \<mapsto> [\<lparr>content = Some ''hi'', replies = Some [JNum 0], files = None,
                                 idempotencyKey = ''k'', status = Unsent\<rparr>]],
          editingMessageId = None, editingMessageContent = None\<rparr>"
  by (simp add: clean_def bad_outbox_def clean_message_def opt_prop_def validateReplies_def
        bad_reply_def array_items_def string_value_def)

end
